theory Spec2Isabelle
  imports Complex_Main "HOL-Library.Word"
begin

section \<open>Machine integers, shapes and strides\<close>

text \<open>
  The source file is \<^verbatim>\<open>xchainer/routines/creation.cc\<close>. It computes byte counts in
  \<^verbatim>\<open>size_t\<close> and reads shape dimensions and strides as \<^verbatim>\<open>int64_t\<close>. Both are 64-bit
  words here: \<open>+\<close>, \<open>-\<close> and \<open>*\<close> wrap around, \<open>sint\<close> reads a word as two's complement
  and \<open>uint\<close> as unsigned. The conversion from \<^verbatim>\<open>int64_t\<close> to \<^verbatim>\<open>size_t\<close> keeps the bits,
  so it is the identity on words. Signed overflow is undefined in C++; the model wraps
  there, and the theorems that read a result as an integer say in which range they do so.
\<close>

type_synonym int64_t = "64 word"
type_synonym size_t = "64 word"

text \<open>
  \<^verbatim>\<open>Shape\<close> and \<^verbatim>\<open>Strides\<close> (\<^verbatim>\<open>shape.h\<close>, \<^verbatim>\<open>strides.h\<close>) are ordered sequences with one
  entry per dimension; \<^verbatim>\<open>ndim()\<close> is the length and \<^verbatim>\<open>operator[]\<close> the indexed read.
\<close>

type_synonym Shape = "int64_t list"
type_synonym Strides = "int64_t list"

text \<open>
  Modelled from the spec: \<^verbatim>\<open>Shape::GetTotalSize\<close> is declared in \<^verbatim>\<open>shape.h\<close>, which is not
  among the sources. The spec's data model: total element count = product of the
  dimensions (0 if any dimension is 0). The product is taken in \<^verbatim>\<open>int64_t\<close>.
\<close>

definition GetTotalSize :: "Shape \<Rightarrow> int64_t" where
  "GetTotalSize shape = prod_list shape"

text \<open>
  \<^verbatim>\<open>std::abs\<close> on \<^verbatim>\<open>int64_t\<close>: the sign test is the signed one. For the most negative
  value, where \<^verbatim>\<open>std::abs\<close> is undefined, the negation wraps to the value itself.
\<close>

definition std_abs :: "int64_t \<Rightarrow> int64_t" where
  "std_abs x = (if x <s 0 then - x else x)"

section \<open>internal::GetRequiredBytes\<close>

text \<open>
  The loop of \<^verbatim>\<open>GetRequiredBytes\<close>:
  \<^verbatim>\<open>for (int8_t i = 0; i < shape.ndim(); ++i) total_bytes += (shape[i] - 1) * std::abs(strides[i]);\<close>
  The counter is a natural number: \<^verbatim>\<open>ndim()\<close> is an \<^verbatim>\<open>int8_t\<close>, so \<open>i\<close> stays below 128
  and never wraps.
\<close>

function bytes_loop :: "Shape \<Rightarrow> Strides \<Rightarrow> nat \<Rightarrow> size_t \<Rightarrow> size_t" where
  "bytes_loop shape strides i total_bytes =
     (if i < length shape
      then bytes_loop shape strides (Suc i)
             (total_bytes + (shape ! i - 1) * std_abs (strides ! i))
      else total_bytes)"
  by pat_completeness auto
termination
  by (relation "measure (\<lambda>(shape, strides, i, total_bytes). length shape - i)") auto

declare bytes_loop.simps [simp del]

text \<open>
  \<^verbatim>\<open>assert(shape.ndim() == strides.ndim())\<close> is the first statement: a call with different
  lengths does not return a byte count (\<open>None\<close>).
\<close>

definition GetRequiredBytes :: "Shape \<Rightarrow> Strides \<Rightarrow> size_t \<Rightarrow> size_t option" where
  "GetRequiredBytes shape strides element_size =
     (if length shape \<noteq> length strides then None
      else if GetTotalSize shape = 0 then Some 0
      else Some (bytes_loop shape strides 0 element_size))"

section \<open>Dtype, double and Scalar\<close>

text \<open>
  Modelled from the spec: \<^verbatim>\<open>Dtype\<close>, \<^verbatim>\<open>DtypeKind\<close>, \<^verbatim>\<open>GetKind\<close> and \<^verbatim>\<open>GetElementSize\<close> are
  declared in \<^verbatim>\<open>dtype.h\<close>, which is not among the sources. The spec's data model: an
  element type tag carrying a fixed byte size and a kind classification (boolean,
  integer, float). The source names the tags \<^verbatim>\<open>kBool\<close> and \<^verbatim>\<open>kFloat64\<close> (the
  highest-precision float tag) and the kind \<^verbatim>\<open>kFloat\<close>; the other tags stand for the
  remaining integer and float element types.
\<close>

datatype DtypeKind = kBoolKind | kInt | kFloat

datatype Dtype = kBool | kInt8 | kInt16 | kInt32 | kInt64 | kUInt8 | kFloat32 | kFloat64

fun GetKind :: "Dtype \<Rightarrow> DtypeKind" where
  "GetKind kBool = kBoolKind"
| "GetKind kFloat32 = kFloat"
| "GetKind kFloat64 = kFloat"
| "GetKind _ = kInt"

fun GetElementSize :: "Dtype \<Rightarrow> int64_t" where
  "GetElementSize kBool = 1"
| "GetElementSize kInt8 = 1"
| "GetElementSize kInt16 = 2"
| "GetElementSize kInt32 = 4"
| "GetElementSize kInt64 = 8"
| "GetElementSize kUInt8 = 1"
| "GetElementSize kFloat32 = 4"
| "GetElementSize kFloat64 = 8"

subsection \<open>Double precision arithmetic\<close>

text \<open>
  A C++ \<^verbatim>\<open>double\<close> is an IEEE 754 binary64 number: a finite value \<open>m * 2^e\<close> with
  \<open>|m| < 2^53\<close> and \<open>-1074 \<le> e \<le> 971\<close>, an infinity or NaN. A finite double is
  represented by its value. The sign of zero is not represented; it does not reach the
  result of \<^verbatim>\<open>Arange\<close>.
\<close>

datatype double = Finite real | PosInf | NegInf | NaN

text \<open>The number of binary digits of a positive integer.\<close>

function bitlen :: "int \<Rightarrow> int" where
  "bitlen n = (if n \<le> 0 then 0 else 1 + bitlen (n div 2))"
  by pat_completeness auto
termination
  by (relation "measure nat") auto

declare bitlen.simps [simp del]

text \<open>For \<open>0 < x\<close>, the exponent \<open>k\<close> with \<open>2^k \<le> x < 2^(k+1)\<close>.\<close>

definition ilog2 :: "real \<Rightarrow> int" where
  "ilog2 x = (if 1 \<le> x then bitlen \<lfloor>x\<rfloor> - 1 else - bitlen (\<lceil>1 / x\<rceil> - 1))"

text \<open>Rounding to the nearest integer, a tie to the even one.\<close>

definition round_half_even :: "real \<Rightarrow> int" where
  "round_half_even x =
     (let f = \<lfloor>x\<rfloor>; r = x - of_int f
      in if r < 1 / 2 then f else if 1 / 2 < r then f + 1 else if even f then f else f + 1)"

text \<open>
  The rounding every conversion and arithmetic operation ends with (round to nearest,
  ties to even, the default mode): the value is rounded to 53 significant binary
  digits, or to a multiple of \<open>2^-1074\<close> in the subnormal range, and becomes an infinity
  when the rounded magnitude reaches \<open>2^1024\<close>.
\<close>

definition round_to_double :: "real \<Rightarrow> double" where
  "round_to_double x =
     (if x = 0 then Finite 0
      else
        (let e = max (ilog2 \<bar>x\<bar> - 52) (- 1074);
             y = of_int (round_half_even (x / 2 powi e)) * 2 powi e
         in if 2 powi 1024 \<le> \<bar>y\<bar> then (if 0 < x then PosInf else NegInf) else Finite y))"

text \<open>\<^verbatim>\<open>a - b\<close> on doubles.\<close>

fun d_sub :: "double \<Rightarrow> double \<Rightarrow> double" where
  "d_sub (Finite a) (Finite b) = round_to_double (a - b)"
| "d_sub NaN _ = NaN"
| "d_sub _ NaN = NaN"
| "d_sub PosInf PosInf = NaN"
| "d_sub NegInf NegInf = NaN"
| "d_sub PosInf _ = PosInf"
| "d_sub NegInf _ = NegInf"
| "d_sub (Finite a) PosInf = NegInf"
| "d_sub (Finite a) NegInf = PosInf"

text \<open>
  \<^verbatim>\<open>a / b\<close> on doubles. A zero divisor is taken as \<open>+0\<close>; \<^verbatim>\<open>Arange\<close> divides by the
  converted step, which is not zero for a scalar that passed the zero-step check.
\<close>

fun d_div :: "double \<Rightarrow> double \<Rightarrow> double" where
  "d_div (Finite a) (Finite b) =
     (if b = 0 then (if a = 0 then NaN else if 0 < a then PosInf else NegInf)
      else round_to_double (a / b))"
| "d_div NaN _ = NaN"
| "d_div _ NaN = NaN"
| "d_div (Finite a) _ = Finite 0"
| "d_div PosInf (Finite b) = (if b < 0 then NegInf else PosInf)"
| "d_div NegInf (Finite b) = (if b < 0 then PosInf else NegInf)"
| "d_div _ _ = NaN"

text \<open>\<^verbatim>\<open>d *= -1\<close>: the multiplication by \<open>-1\<close> is exact.\<close>

fun d_neg :: "double \<Rightarrow> double" where
  "d_neg (Finite a) = Finite (- a)"
| "d_neg PosInf = NegInf"
| "d_neg NegInf = PosInf"
| "d_neg NaN = NaN"

text \<open>\<^verbatim>\<open>d < 0\<close>.\<close>

fun d_less_zero :: "double \<Rightarrow> bool" where
  "d_less_zero (Finite a) = (a < 0)"
| "d_less_zero NegInf = True"
| "d_less_zero _ = False"

text \<open>\<^verbatim>\<open>std::ceil\<close>: the ceiling of a double is a double, so there is no rounding.\<close>

fun d_ceil :: "double \<Rightarrow> double" where
  "d_ceil (Finite a) = Finite (of_int \<lceil>a\<rceil>)"
| "d_ceil d = d"

text \<open>
  \<^verbatim>\<open>static_cast<int64_t>(d)\<close> truncates towards zero. For NaN, an infinity or a value
  outside the \<^verbatim>\<open>int64_t\<close> range the conversion is undefined in C++; the model gives
  the most negative \<^verbatim>\<open>int64_t\<close> there, as the x86-64 conversion instruction does.
\<close>

fun d_to_int64 :: "double \<Rightarrow> int64_t" where
  "d_to_int64 (Finite a) =
     (let t = (if a < 0 then \<lceil>a\<rceil> else \<lfloor>a\<rfloor>)
      in if - (2 ^ 63) \<le> t \<and> t < 2 ^ 63 then word_of_int t else word_of_int (- (2 ^ 63)))"
| "d_to_int64 _ = word_of_int (- (2 ^ 63))"

subsection \<open>Scalar\<close>

text \<open>
  Modelled from the spec: \<^verbatim>\<open>Scalar\<close> is declared in \<^verbatim>\<open>scalar.h\<close>, which is not among the
  sources. The spec's data model: a tagged value paired with a dtype, convertible to a
  numeric representation (a double) for range-size arithmetic. \<open>val\<close> is the value the
  scalar holds: 0 or 1 under the boolean tag, an integer under an integer tag, the
  value of the floating-point number under a float tag. Infinite and NaN scalars are
  not represented.
\<close>

record Scalar =
  val :: real
  dtype :: Dtype

text \<open>
  Modelled from the spec: \<^verbatim>\<open>static_cast<double>(scalar)\<close>, the scalar's conversion to
  double. An integer that is not a double (beyond \<open>2^53\<close>) is rounded; a value that is
  a double is unchanged.
\<close>

definition to_double :: "Scalar \<Rightarrow> double" where
  "to_double s = round_to_double (val s)"

text \<open>
  Modelled from the spec: the implicit conversion of an integer literal (\<^verbatim>\<open>0\<close>, \<^verbatim>\<open>1\<close>) to
  a \<^verbatim>\<open>Scalar\<close>: the value with the tag of a C++ \<^verbatim>\<open>int\<close>. No theorem below depends on
  which integer tag it is, beyond its kind being integer.
\<close>

definition Scalar_of_int :: "int \<Rightarrow> Scalar" where
  "Scalar_of_int v = \<lparr>val = of_int v, dtype = kInt32\<rparr>"

text \<open>Modelled from the spec: \<^verbatim>\<open>Scalar{0, dtype}\<close>, the value zero in the given dtype.\<close>

definition Scalar_zero :: "Dtype \<Rightarrow> Scalar" where
  "Scalar_zero dt = \<lparr>val = 0, dtype = dt\<rparr>"

text \<open>
  Modelled from the spec: \<^verbatim>\<open>Scalar::operator==\<close>. The source's comment at its use (\<^verbatim>\<open>Simplify comparison if
  Scalar::operator== supports dtype conversion\<close>) says that it does not convert between
  dtypes: two scalars are equal when tag and value agree.
\<close>

definition Scalar_eq :: "Scalar \<Rightarrow> Scalar \<Rightarrow> bool" where
  "Scalar_eq a b = (Scalar.dtype a = Scalar.dtype b \<and> val a = val b)"

section \<open>Arrays and the device\<close>

text \<open>
  Modelled from the spec: the \<^verbatim>\<open>Strides{shape, dtype}\<close> constructor is declared in
  \<^verbatim>\<open>strides.h\<close>, which is not among the sources. It gives the canonical row-major
  strides for the shape and the dtype's element size: the last dimension steps by one
  element, every other dimension by the extent of all dimensions after it.
\<close>

fun row_major :: "Shape \<Rightarrow> int64_t \<Rightarrow> Strides" where
  "row_major [] element_size = []"
| "row_major (d # ds) element_size = (element_size * prod_list ds) # row_major ds element_size"

definition Strides_of :: "Shape \<Rightarrow> Dtype \<Rightarrow> Strides" where
  "Strides_of shape dt = row_major shape (GetElementSize dt)"

type_synonym GraphId = string

text \<open>
  Modelled from the spec: \<^verbatim>\<open>Array\<close> is declared in \<^verbatim>\<open>array.h\<close>, which is not among the
  sources. The spec's data model: a handle combining Shape, Strides, Dtype, a reference
  to a Device and a device-resident memory block. \<open>data\<close> is the handle of the block in
  the device's memory; \<open>nodes\<close> is the derivation history, the graphs the array is
  connected to (empty for a leaf).
\<close>

record Array =
  shape :: Shape
  strides :: Strides
  dtype :: Dtype
  data :: nat
  nodes :: "GraphId list"

text \<open>
  Modelled from the spec: the \<^verbatim>\<open>Device\<close> (\<^verbatim>\<open>device.h\<close>) is an external collaborator. Its
  state here is the list of byte counts of all memory requests it has received, oldest
  first, and the contents of its blocks. A block maps a byte offset to the element
  value stored from that offset on, \<open>None\<close> where nothing has been written; \<open>memory\<close>
  is \<open>None\<close> at a handle the device has not handed out. A request is always served:
  the allocator's own failure is not part of this file.
\<close>

type_synonym block = "int \<Rightarrow> real option"

record Device =
  requested :: "size_t list"
  memory :: "nat \<Rightarrow> block option"

text \<open>
  Modelled from the spec: \<^verbatim>\<open>Device::Allocate(bytesize)\<close>, fresh, uninitialised device
  memory.
\<close>

definition Allocate :: "Device \<Rightarrow> size_t \<Rightarrow> nat \<times> Device" where
  "Allocate device bytesize =
     (let h = length (requested device)
      in (h, device\<lparr>requested := requested device @ [bytesize],
                     memory := (memory device)(h := Some (\<lambda>off. None))\<rparr>))"

text \<open>
  Modelled from the spec: \<^verbatim>\<open>Device::FromHostMemory(data, bytesize)\<close>, a device-resident
  copy of the first \<open>bytesize\<close> bytes of the host buffer.
\<close>

definition FromHostMemory :: "Device \<Rightarrow> block \<Rightarrow> size_t \<Rightarrow> nat \<times> Device" where
  "FromHostMemory device host bytesize =
     (let h = length (requested device)
      in (h, device\<lparr>requested := requested device @ [bytesize],
                     memory := (memory device)
                       (h := Some (\<lambda>off. if 0 \<le> off \<and> off < uint bytesize then host off
                                         else None))\<rparr>))"

text \<open>
  Modelled from the spec: \<^verbatim>\<open>internal::MakeArray(shape, strides, dtype, device, data)\<close>
  wraps a block into an array; a freshly made array has no history.
\<close>

definition MakeArray :: "Shape \<Rightarrow> Strides \<Rightarrow> Dtype \<Rightarrow> nat \<Rightarrow> Array" where
  "MakeArray sh st dt d = \<lparr>shape = sh, strides = st, dtype = dt, data = d, nodes = []\<rparr>"

text \<open>
  Modelled from the spec: \<^verbatim>\<open>Array::IsContiguous\<close>, the strides equal the canonical
  row-major strides for the array's shape and dtype.
\<close>

definition IsContiguous :: "Array \<Rightarrow> bool" where
  "IsContiguous a = (strides a = Strides_of (shape a) (Array.dtype a))"

text \<open>
  Modelled from the spec: the elements of an array (\<^verbatim>\<open>array.h\<close>; the spec's strides are
  per-dimension byte steps mapping array coordinates to memory offsets). \<open>indices\<close> lists the multi-indices of a shape in row-major
  order. The element at a multi-index lies at the byte offset that is the sum of the
  index components times the strides, and \<open>element_at\<close> reads it from the array's
  block.
\<close>

fun indices :: "Shape \<Rightarrow> int list list" where
  "indices [] = [[]]"
| "indices (d # ds) =
     concat (map (\<lambda>i. map (\<lambda>idx. int i # idx) (indices ds)) [0..<nat (sint d)])"

fun offset :: "Strides \<Rightarrow> int list \<Rightarrow> int" where
  "offset (s # ss) (i # idx) = i * sint s + offset ss idx"
| "offset _ _ = 0"

definition block_of :: "Device \<Rightarrow> nat \<Rightarrow> block" where
  "block_of device h = (case memory device h of None \<Rightarrow> (\<lambda>off. None) | Some b \<Rightarrow> b)"

definition element_at :: "Device \<Rightarrow> Array \<Rightarrow> int list \<Rightarrow> real option" where
  "element_at device a idx = block_of device (data a) (offset (strides a) idx)"

text \<open>
  Modelled from the spec: \<^verbatim>\<open>Array::Fill(value)\<close>, every element of the array becomes
  the value. The conversion of the value to the array's dtype is not modelled.
\<close>

definition Fill :: "Array \<Rightarrow> Scalar \<Rightarrow> Device \<Rightarrow> Device" where
  "Fill a v device =
     device\<lparr>memory := (memory device)
       (data a := Some (fold (\<lambda>idx b. b(offset (strides a) idx := Some (val v)))
                          (indices (shape a)) (block_of device (data a))))\<rparr>"

text \<open>
  Modelled from the spec: \<^verbatim>\<open>Device::Arange(start, step, out)\<close> fills \<open>out\<close> in place
  with the arithmetic progression beginning at \<open>start\<close> with increment \<open>step\<close>: the
  \<open>i\<close>-th element in row-major order becomes \<open>start + i * step\<close>.
\<close>

definition Device_Arange :: "Scalar \<Rightarrow> Scalar \<Rightarrow> Array \<Rightarrow> Device \<Rightarrow> Device" where
  "Device_Arange start step out device =
     device\<lparr>memory := (memory device)
       (data out := Some (fold (\<lambda>(i, idx) b.
                                  b(offset (strides out) idx :=
                                      Some (val start + of_nat i * val step)))
                          (enumerate 0 (indices (shape out)))
                          (block_of device (data out))))\<rparr>"

section \<open>The construction routines of creation.cc\<close>

text \<open>\<^verbatim>\<open>internal::FromHostData\<close> and \<^verbatim>\<open>internal::Empty\<close>, the entry points with given strides.\<close>

definition FromHostData ::
  "Shape \<Rightarrow> Dtype \<Rightarrow> block \<Rightarrow> Strides \<Rightarrow> Device \<Rightarrow> (Array \<times> Device) option" where
  "FromHostData sh dt host st device =
     (case GetRequiredBytes sh st (GetElementSize dt) of
        None \<Rightarrow> None
      | Some bytesize \<Rightarrow>
          (let (device_data, device') = FromHostMemory device host bytesize
           in Some (MakeArray sh st dt device_data, device')))"

definition internal_Empty ::
  "Shape \<Rightarrow> Dtype \<Rightarrow> Strides \<Rightarrow> Device \<Rightarrow> (Array \<times> Device) option" where
  "internal_Empty sh dt st device =
     (case GetRequiredBytes sh st (GetElementSize dt) of
        None \<Rightarrow> None
      | Some bytesize \<Rightarrow>
          (let (d, device') = Allocate device bytesize
           in Some (MakeArray sh st dt d, device')))"

text \<open>\<^verbatim>\<open>Empty(shape, dtype, device)\<close>, the default allocation path.\<close>

definition Empty :: "Shape \<Rightarrow> Dtype \<Rightarrow> Device \<Rightarrow> Array \<times> Device" where
  "Empty sh dt device =
     (let bytesize = GetTotalSize sh * GetElementSize dt;
          (d, device') = Allocate device bytesize
      in (MakeArray sh (Strides_of sh dt) dt d, device'))"

definition Full :: "Shape \<Rightarrow> Scalar \<Rightarrow> Dtype \<Rightarrow> Device \<Rightarrow> Array \<times> Device" where
  "Full sh fill_value dt device =
     (let (array, device') = Empty sh dt device
      in (array, Fill array fill_value device'))"

text \<open>\<^verbatim>\<open>Full(shape, fill_value, device)\<close>: the dtype is the fill value's.\<close>

definition Full_infer :: "Shape \<Rightarrow> Scalar \<Rightarrow> Device \<Rightarrow> Array \<times> Device" where
  "Full_infer sh fill_value device = Full sh fill_value (Scalar.dtype fill_value) device"

definition Zeros :: "Shape \<Rightarrow> Dtype \<Rightarrow> Device \<Rightarrow> Array \<times> Device" where
  "Zeros sh dt device = Full sh (Scalar_of_int 0) dt device"

definition Ones :: "Shape \<Rightarrow> Dtype \<Rightarrow> Device \<Rightarrow> Array \<times> Device" where
  "Ones sh dt device = Full sh (Scalar_of_int 1) dt device"

subsection \<open>Arange\<close>

datatype error = XchainerError | DtypeError

text \<open>\<^verbatim>\<open>std::max\<close> on \<^verbatim>\<open>int64_t\<close>: \<^verbatim>\<open>(a < b) ? b : a\<close>, compared as signed values.\<close>

definition std_max :: "int64_t \<Rightarrow> int64_t \<Rightarrow> int64_t" where
  "std_max a b = (if a <s b then b else a)"

text \<open>
  The size computation of \<^verbatim>\<open>Arange\<close> (the lines from \<^verbatim>\<open>auto d_start\<close> to \<^verbatim>\<open>auto size\<close>):
  the three scalars are converted to double; a negative step swaps \<open>d_start\<close> and
  \<open>d_stop\<close> and is multiplied by \<open>-1\<close>; the size is the larger of 0 and the ceiling of
  \<open>(d_stop - d_start) / d_step\<close>, cast to \<^verbatim>\<open>int64_t\<close>, all in double arithmetic. It
  runs only after the zero-step check.
\<close>

definition Arange_normalize :: "double \<times> double \<times> double \<Rightarrow> double \<times> double \<times> double" where
  "Arange_normalize t =
     (case t of (d_start, d_stop, d_step) \<Rightarrow>
        if d_less_zero d_step then (d_stop, d_start, d_neg d_step)
        else (d_start, d_stop, d_step))"

definition Arange_size :: "Scalar \<Rightarrow> Scalar \<Rightarrow> Scalar \<Rightarrow> int64_t" where
  "Arange_size start stop step =
     (case Arange_normalize (to_double start, to_double stop, to_double step) of
        (d_start, d_stop, d_step) \<Rightarrow>
          std_max 0 (d_to_int64 (d_ceil (d_div (d_sub d_stop d_start) d_step))))"

text \<open>
  The rest of \<^verbatim>\<open>Arange\<close> once the size is computed (from \<^verbatim>\<open>if (size > 2 && ...)\<close> to
  the \<^verbatim>\<open>return\<close>). A \<^verbatim>\<open>throw\<close> is the \<open>Inl\<close> result; the device state at that moment is
  returned with it.
\<close>

definition Arange_with_size ::
  "int64_t \<Rightarrow> Scalar \<Rightarrow> Scalar \<Rightarrow> Dtype \<Rightarrow> Device \<Rightarrow> (error + Array) \<times> Device" where
  "Arange_with_size sz start step dt device =
     (if 2 <s sz \<and> dt = kBool then (Inl DtypeError, device)
      else
        (let (out, device') = Empty [sz] dt device
         in (Inr out, Device_Arange start step out device')))"

text \<open>\<^verbatim>\<open>Arange(start, stop, step, dtype, device)\<close>.\<close>

definition Arange ::
  "Scalar \<Rightarrow> Scalar \<Rightarrow> Scalar \<Rightarrow> Dtype \<Rightarrow> Device \<Rightarrow> (error + Array) \<times> Device" where
  "Arange start stop step dt device =
     (if Scalar_eq step (Scalar_zero (Scalar.dtype step)) then (Inl XchainerError, device)
      else Arange_with_size (Arange_size start stop step) start step dt device)"

text \<open>
  \<^verbatim>\<open>Arange(start, stop, step, device)\<close>: the dtype is inferred. \<open>Arange_infer_dtype\<close> is
  the dtype argument of its call of the five-argument \<^verbatim>\<open>Arange\<close>.
\<close>

definition Arange_infer_dtype :: "Scalar \<Rightarrow> Scalar \<Rightarrow> Scalar \<Rightarrow> Dtype" where
  "Arange_infer_dtype start stop step =
     (let start_stop_any_float =
            (GetKind (Scalar.dtype start) = kFloat \<or> GetKind (Scalar.dtype stop) = kFloat)
      in if start_stop_any_float then kFloat64 else Scalar.dtype step)"

definition Arange_infer ::
  "Scalar \<Rightarrow> Scalar \<Rightarrow> Scalar \<Rightarrow> Device \<Rightarrow> (error + Array) \<times> Device" where
  "Arange_infer start stop step device =
     Arange start stop step (Arange_infer_dtype start stop step) device"

text \<open>\<^verbatim>\<open>Arange(start, stop, dtype, device)\<close>, \<^verbatim>\<open>Arange(stop, dtype, device)\<close>, \<^verbatim>\<open>Arange(stop, device)\<close>.\<close>

definition Arange_start_stop_dtype ::
  "Scalar \<Rightarrow> Scalar \<Rightarrow> Dtype \<Rightarrow> Device \<Rightarrow> (error + Array) \<times> Device" where
  "Arange_start_stop_dtype start stop dt device = Arange start stop (Scalar_of_int 1) dt device"

definition Arange_stop_dtype :: "Scalar \<Rightarrow> Dtype \<Rightarrow> Device \<Rightarrow> (error + Array) \<times> Device" where
  "Arange_stop_dtype stop dt device = Arange (Scalar_of_int 0) stop (Scalar_of_int 1) dt device"

definition Arange_stop :: "Scalar \<Rightarrow> Device \<Rightarrow> (error + Array) \<times> Device" where
  "Arange_stop stop device =
     Arange (Scalar_of_int 0) stop (Scalar_of_int 1) (Scalar.dtype stop) device"

subsection \<open>The Like family and Copy\<close>

definition EmptyLike :: "Array \<Rightarrow> Device \<Rightarrow> Array \<times> Device" where
  "EmptyLike a device = Empty (shape a) (Array.dtype a) device"

definition FullLike :: "Array \<Rightarrow> Scalar \<Rightarrow> Device \<Rightarrow> Array \<times> Device" where
  "FullLike a fill_value device = Full (shape a) fill_value (Array.dtype a) device"

definition ZerosLike :: "Array \<Rightarrow> Device \<Rightarrow> Array \<times> Device" where
  "ZerosLike a device = Zeros (shape a) (Array.dtype a) device"

definition OnesLike :: "Array \<Rightarrow> Device \<Rightarrow> Array \<times> Device" where
  "OnesLike a device = Ones (shape a) (Array.dtype a) device"

datatype CopyKind = kCopy | kView

text \<open>
  Modelled from the spec: \<^verbatim>\<open>Array::AsConstant(graph_ids, kind)\<close> is declared in \<^verbatim>\<open>array.h\<close>,
  which is not among the sources. The spec's array capability: it severs derivation
  history, optionally copying; the result carries no derivation relationship to the
  array or to any prior computation history. With \<^verbatim>\<open>kCopy\<close> the result is a new
  contiguous array of the same shape and dtype, and every element of the array, read
  through its strides, is written to the same multi-index of the result; with \<^verbatim>\<open>kView\<close>
  the result shares the array's block and layout. The spec does not say what the first
  argument selects (\<^verbatim>\<open>Copy\<close> passes the empty collection); following the spec's words,
  the whole history is severed.
\<close>

definition AsConstant :: "Array \<Rightarrow> GraphId list \<Rightarrow> CopyKind \<Rightarrow> Device \<Rightarrow> Array \<times> Device" where
  "AsConstant a graph_ids kind device =
     (case kind of
        kCopy \<Rightarrow>
          (let (out, device') = Empty (shape a) (Array.dtype a) device;
               b = fold (\<lambda>idx b. b(offset (strides out) idx := element_at device' a idx))
                     (indices (shape a)) (block_of device' (data out))
           in (out\<lparr>nodes := []\<rparr>, device'\<lparr>memory := (memory device')(data out := Some b)\<rparr>))
      | kView \<Rightarrow> (a\<lparr>nodes := []\<rparr>, device))"

text \<open>
  \<^verbatim>\<open>Copy(a)\<close>. The array knows its device; here the device state is passed in. The
  \<^verbatim>\<open>assert(out.IsContiguous())\<close> is the \<open>None\<close> branch.
\<close>

definition Copy :: "Array \<Rightarrow> Device \<Rightarrow> (Array \<times> Device) option" where
  "Copy a device =
     (let (out, device') = AsConstant a [] kCopy device
      in if IsContiguous out then Some (out, device') else None)"

section \<open>The byte span\<close>

lemma bytes_loop_sum:
  "bytes_loop sh st i tb =
     tb + (\<Sum>k\<leftarrow>[i..<length sh]. (sh ! k - 1) * std_abs (st ! k))"
proof (induction sh st i tb rule: bytes_loop.induct)
  case (1 sh st i tb)
  show ?case
  proof (cases "i < length sh")
    case True
    then have "[i..<length sh] = i # [Suc i..<length sh]"
      by (simp add: upt_conv_Cons)
    with True 1 show ?thesis
      by (subst bytes_loop.simps) (simp add: add.assoc)
  next
    case False
    then show ?thesis by (subst bytes_loop.simps) simp
  qed
qed

lemma std_abs_int: "std_abs x = word_of_int \<bar>sint x\<bar>"
  by (simp add: std_abs_def word_sless_alt abs_if)

lemma sint_neg64: "sint (- x :: 64 word) = (if sint x = - (2 ^ 63) then - (2 ^ 63) else - sint x)"
proof (cases "sint x = - (2 ^ 63)")
  case True
  have "sint (- x) = signed_take_bit 63 (- sint x)"
    by (simp add: sint_word_ariths)
  also have "\<dots> = signed_take_bit 63 (2 ^ 63 :: int)" using True by simp
  also have "\<dots> = - (2 ^ 63)" by simp
  finally show ?thesis using True by simp
next
  case False
  have lo: "- (2 ^ 63) \<le> sint x" using sint_ge [of x] by simp
  have hi: "sint x < 2 ^ 63" using sint_lt [of x] by simp
  have "sint (- x) = signed_take_bit 63 (- sint x)"
    by (simp add: sint_word_ariths)
  also have "\<dots> = - sint x"
    using lo hi False by (intro signed_take_bit_int_eq_self) auto
  finally show ?thesis using False by simp
qed

lemma std_abs_neg: "std_abs (- x) = std_abs x"
  by (simp add: std_abs_int sint_neg64)

lemma index_sum_word_of_int:
  "(\<Sum>k\<leftarrow>ks. (sh ! k - 1) * std_abs (st ! k)) =
     (word_of_int (\<Sum>k\<leftarrow>ks. (sint (sh ! k) - 1) * \<bar>sint (st ! k)\<bar>) :: 64 word)"
  by (induction ks) (simp_all add: std_abs_int)

lemma prod_list_zero_word: "(0 :: 64 word) \<in> set ds \<Longrightarrow> prod_list ds = 0"
  by (induction ds) auto

text \<open>
  Claim C1. For a shape and strides of equal ndim and every element size: when the
  shape's total element count is 0 the result is 0 whatever the strides are, and a
  dimension that is 0 makes the count 0; otherwise the result is the element size plus
  the sum over all dimensions \<open>i\<close> of \<open>(shape[i] - 1) * |strides[i]|\<close>; for the
  zero-dimensional shape it is the element size. The sum is stated in the routine's
  own 64-bit arithmetic and over the integers, of which the \<^verbatim>\<open>size_t\<close> result keeps
  the low 64 bits; where the integer value fits \<^verbatim>\<open>size_t\<close> the result is that value.
\<close>

theorem GetRequiredBytes_policy:
  assumes "length sh = length st"
  shows "GetRequiredBytes sh st element_size =
           Some (if GetTotalSize sh = 0 then 0
                 else element_size +
                   (\<Sum>i\<leftarrow>[0..<length sh]. (sh ! i - 1) * std_abs (st ! i)))
       \<and> GetRequiredBytes sh st element_size =
           Some (if GetTotalSize sh = 0 then 0
                 else word_of_int (uint element_size +
                   (\<Sum>i\<leftarrow>[0..<length sh]. (sint (sh ! i) - 1) * \<bar>sint (st ! i)\<bar>)))
       \<and> (GetTotalSize sh \<noteq> 0
            \<and> 0 \<le> (\<Sum>i\<leftarrow>[0..<length sh]. (sint (sh ! i) - 1) * \<bar>sint (st ! i)\<bar>)
            \<and> uint element_size +
                (\<Sum>i\<leftarrow>[0..<length sh]. (sint (sh ! i) - 1) * \<bar>sint (st ! i)\<bar>) < 2 ^ 64
          \<longrightarrow> map_option uint (GetRequiredBytes sh st element_size) =
                Some (uint element_size +
                  (\<Sum>i\<leftarrow>[0..<length sh]. (sint (sh ! i) - 1) * \<bar>sint (st ! i)\<bar>)))
       \<and> (0 \<in> set sh \<longrightarrow> GetRequiredBytes sh st element_size = Some 0)
       \<and> GetRequiredBytes [] [] element_size = Some element_size"
proof -
  let ?N = "uint element_size +
              (\<Sum>i\<leftarrow>[0..<length sh]. (sint (sh ! i) - 1) * \<bar>sint (st ! i)\<bar>)"
  have word_form: "GetRequiredBytes sh st element_size =
           Some (if GetTotalSize sh = 0 then 0
                 else element_size +
                   (\<Sum>i\<leftarrow>[0..<length sh]. (sh ! i - 1) * std_abs (st ! i)))"
    using assms by (simp add: GetRequiredBytes_def bytes_loop_sum)
  have int_form: "element_size +
                   (\<Sum>i\<leftarrow>[0..<length sh]. (sh ! i - 1) * std_abs (st ! i)) =
        word_of_int (uint element_size +
                   (\<Sum>i\<leftarrow>[0..<length sh]. (sint (sh ! i) - 1) * \<bar>sint (st ! i)\<bar>))"
    by (simp add: index_sum_word_of_int)
  have zero_dim: "0 \<in> set sh \<longrightarrow> GetRequiredBytes sh st element_size = Some 0"
    using assms by (simp add: GetRequiredBytes_def GetTotalSize_def prod_list_zero_word)
  have scalar: "GetRequiredBytes [] [] element_size = Some element_size"
    by (simp add: GetRequiredBytes_def GetTotalSize_def bytes_loop.simps)
  have exact: "map_option uint (GetRequiredBytes sh st element_size) = Some ?N"
    if nz: "GetTotalSize sh \<noteq> 0"
      and lo: "0 \<le> (\<Sum>i\<leftarrow>[0..<length sh]. (sint (sh ! i) - 1) * \<bar>sint (st ! i)\<bar>)"
      and hi: "?N < 2 ^ 64"
  proof -
    from lo have "0 \<le> ?N" by simp
    then have tb: "take_bit 64 ?N = ?N" using hi by (rule take_bit_int_eq_self)
    have "uint (word_of_int ?N :: 64 word) = take_bit 64 ?N"
      unfolding uint_word_of_int_eq by simp
    also note tb
    finally have u: "uint (word_of_int ?N :: 64 word) = ?N" .
    have "GetRequiredBytes sh st element_size = Some (word_of_int ?N)"
      using word_form nz by (simp only: int_form if_False)
    then show ?thesis by (simp only: option.map u)
  qed
  from word_form int_form zero_dim scalar exact show ?thesis by simp
qed

theorem GetRequiredBytes_policy_witness:
  "length [2, 3 :: int64_t] = length [12, 4 :: int64_t]
   \<and> GetTotalSize [2, 3] \<noteq> 0
   \<and> GetRequiredBytes [2, 3] [12, 4] 4 = Some 24
   \<and> map_option uint (GetRequiredBytes [2, 3] [12, 4] 4) = Some (4 + (1 * 12 + 2 * 4))
   \<and> (0 :: int64_t) \<in> set [5, 0]
   \<and> GetRequiredBytes [5, 0] [- 8, 8] 8 = Some 0"
  using GetRequiredBytes_policy [of "[2, 3]" "[12, 4]" 4]
        GetRequiredBytes_policy [of "[5, 0]" "[- 8, 8]" 8]
  by (simp add: GetTotalSize_def std_abs_def word_sless_alt)

lemma bytes_loop_flip:
  "bytes_loop sh (st[i := - (st ! i)]) j tb = bytes_loop sh st j tb"
proof -
  have "std_abs (st[i := - (st ! i)] ! k) = std_abs (st ! k)" for k
    by (cases "i < length st") (simp_all add: nth_list_update std_abs_neg list_update_beyond)
  then show ?thesis by (simp add: bytes_loop_sum)
qed

text \<open>
  Claim C6. The result of \<^verbatim>\<open>GetRequiredBytes\<close> does not change when a stride is replaced
  by its negation, at any one position or at all of them; shape \<open>(4)\<close> with stride
  \<open>(-4)\<close> and element size 4 gives 16, as stride \<open>(4)\<close> does.
\<close>

theorem GetRequiredBytes_sign_flip:
  "GetRequiredBytes sh (st[i := - (st ! i)]) element_size =
     GetRequiredBytes sh st element_size
   \<and> GetRequiredBytes sh (map uminus st) element_size =
     GetRequiredBytes sh st element_size
   \<and> GetRequiredBytes [4] [- 4] 4 = Some 16
   \<and> GetRequiredBytes [4] [4] 4 = Some 16"
proof -
  have one: "GetRequiredBytes sh (st[i := - (st ! i)]) element_size =
     GetRequiredBytes sh st element_size"
    by (simp add: GetRequiredBytes_def bytes_loop_flip)
  have "map (\<lambda>k. (sh ! k - 1) * std_abs (map uminus st ! k)) [0..<length st] =
        map (\<lambda>k. (sh ! k - 1) * std_abs (st ! k)) [0..<length st]"
    by (rule map_cong) (simp_all add: std_abs_neg)
  then have "length sh = length st \<Longrightarrow>
      bytes_loop sh (map uminus st) 0 element_size = bytes_loop sh st 0 element_size"
    by (simp only: bytes_loop_sum)
  then have all: "GetRequiredBytes sh (map uminus st) element_size =
     GetRequiredBytes sh st element_size"
    by (simp add: GetRequiredBytes_def)
  have ex: "GetRequiredBytes [4] [- 4] 4 = Some 16 \<and> GetRequiredBytes [4] [4] 4 = Some 16"
    by (simp add: GetRequiredBytes_def GetTotalSize_def bytes_loop.simps std_abs_def word_sless_alt)
  from one all ex show ?thesis by simp
qed

section \<open>The default allocation path\<close>

lemma sint_mult64:
  fixes a b :: "64 word"
  assumes "0 \<le> sint a * sint b" and "sint a * sint b < 2 ^ 63"
  shows "sint (a * b) = sint a * sint b"
proof -
  have "sint (a * b) = signed_take_bit 63 (sint a * sint b)"
    by (simp add: sint_word_ariths)
  also have "\<dots> = sint a * sint b"
    using assms by (intro signed_take_bit_int_eq_self) auto
  finally show ?thesis .
qed

lemma prod_sint_pos:
  fixes ds :: "64 word list"
  shows "\<forall>d\<in>set ds. 1 \<le> sint d \<Longrightarrow> 1 \<le> prod_list (map sint ds)"
proof (induction ds)
  case Nil
  then show ?case by simp
next
  case (Cons d ds)
  then have "1 \<le> sint d" and "1 \<le> prod_list (map sint ds)" by simp_all
  then have "1 * 1 \<le> sint d * prod_list (map sint ds)"
    by (intro mult_mono) simp_all
  then show ?case by simp
qed

lemma sint_scaled_prod:
  fixes ds :: "64 word list" and es :: "64 word"
  assumes "\<forall>d\<in>set ds. 1 \<le> sint d" and "1 \<le> sint es"
      and "sint es * prod_list (map sint ds) < 2 ^ 63"
  shows "sint (es * prod_list ds) = sint es * prod_list (map sint ds)"
  using assms
proof (induction ds)
  case Nil
  then show ?case by simp
next
  case (Cons d ds)
  let ?P = "prod_list (map sint ds)"
  from Cons.prems have d1: "1 \<le> sint d" and all: "\<forall>d\<in>set ds. 1 \<le> sint d" by simp_all
  from all have P1: "1 \<le> ?P" by (rule prod_sint_pos)
  from Cons.prems have fits: "sint es * (sint d * ?P) < 2 ^ 63" by simp
  have esP: "0 \<le> sint es * ?P" using Cons.prems(2) P1 by simp
  have "sint es * ?P * 1 \<le> sint es * ?P * sint d"
    using esP d1 by (intro mult_left_mono) simp_all
  then have le: "sint es * ?P \<le> sint es * (sint d * ?P)" by (simp add: mult_ac)
  with fits have "sint es * ?P < 2 ^ 63" by linarith
  with Cons.IH all Cons.prems(2) have IH: "sint (es * prod_list ds) = sint es * ?P" by simp
  have "es * prod_list (d # ds) = d * (es * prod_list ds)" by (simp add: mult_ac)
  moreover have "sint (d * (es * prod_list ds)) = sint d * sint (es * prod_list ds)"
  proof (rule sint_mult64)
    show "0 \<le> sint d * sint (es * prod_list ds)" using d1 esP by (simp add: IH)
    show "sint d * sint (es * prod_list ds) < 2 ^ 63" using fits by (simp add: IH mult_ac)
  qed
  ultimately show ?case by (simp add: IH mult_ac)
qed

lemma length_row_major: "length (row_major ds es) = length ds"
  by (induction ds) simp_all

lemma index_sum_zip:
  assumes "length xs = length ys"
  shows "(\<Sum>k\<leftarrow>[0..<length xs]. f (xs ! k) (ys ! k)) = (\<Sum>(x, y)\<leftarrow>zip xs ys. f x y)"
proof -
  have "map (\<lambda>k. f (xs ! k) (ys ! k)) [0..<length xs] = map (\<lambda>(x, y). f x y) (zip xs ys)"
    using assms by (intro nth_equalityI) simp_all
  then show ?thesis by simp
qed

lemma row_major_span:
  fixes ds :: "64 word list" and es :: "64 word"
  assumes "\<forall>d\<in>set ds. 1 \<le> sint d" and "1 \<le> sint es"
      and "sint es * prod_list (map sint ds) < 2 ^ 63"
  shows "(\<Sum>(s, t)\<leftarrow>zip ds (row_major ds es). (s - 1) * std_abs t) = es * prod_list ds - es"
  using assms
proof (induction ds)
  case Nil
  then show ?case by simp
next
  case (Cons d ds)
  let ?P = "prod_list (map sint ds)"
  from Cons.prems have d1: "1 \<le> sint d" and all: "\<forall>d\<in>set ds. 1 \<le> sint d" by simp_all
  from all have P1: "1 \<le> ?P" by (rule prod_sint_pos)
  from Cons.prems have fits: "sint es * (sint d * ?P) < 2 ^ 63" by simp
  have esP: "0 \<le> sint es * ?P" using Cons.prems(2) P1 by simp
  have "sint es * ?P * 1 \<le> sint es * ?P * sint d"
    using esP d1 by (intro mult_left_mono) simp_all
  then have "sint es * ?P \<le> sint es * (sint d * ?P)" by (simp add: mult_ac)
  with fits have small: "sint es * ?P < 2 ^ 63" by linarith
  have "sint (es * prod_list ds) = sint es * ?P"
    using all Cons.prems(2) small by (rule sint_scaled_prod)
  with esP have "std_abs (es * prod_list ds) = es * prod_list ds"
    by (simp add: std_abs_def word_sless_alt)
  moreover have "(\<Sum>(s, t)\<leftarrow>zip ds (row_major ds es). (s - 1) * std_abs t) = es * prod_list ds - es"
    using Cons.IH all Cons.prems(2) small by simp
  ultimately show ?case by (simp add: algebra_simps)
qed

lemma GetElementSize_pos: "1 \<le> sint (GetElementSize dt)"
  by (cases dt) simp_all


lemma Empty_requested:
  "requested (snd (Empty sh dt device)) = requested device @ [GetTotalSize sh * GetElementSize dt]"
  by (simp add: Empty_def Allocate_def Let_def)

lemma Empty_fst:
  "fst (Empty sh dt device) = MakeArray sh (Strides_of sh dt) dt (length (requested device))"
  by (simp add: Empty_def Allocate_def Let_def)

text \<open>
  Claim C5. The default allocation path \<^verbatim>\<open>Empty(shape, dtype, device)\<close> asks the device
  for total element count times element size bytes and gives the array the canonical
  row-major strides, and this closed form is what \<^verbatim>\<open>GetRequiredBytes\<close> returns at those
  strides. The shapes are those the C++ arithmetic is defined on: dimensions that are
  not negative, and a byte count that fits \<^verbatim>\<open>int64_t\<close>; there the 64-bit product is the
  integer product.
\<close>

theorem Empty_bytesize_closed_form:
  assumes nonneg: "\<forall>d\<in>set sh. 0 \<le> sint d"
      and fits: "prod_list (map sint sh) * sint (GetElementSize dt) < 2 ^ 63"
  shows "requested (snd (Empty sh dt device)) =
           requested device @ [GetTotalSize sh * GetElementSize dt]
       \<and> strides (fst (Empty sh dt device)) = Strides_of sh dt
       \<and> GetRequiredBytes sh (Strides_of sh dt) (GetElementSize dt) =
           Some (GetTotalSize sh * GetElementSize dt)
       \<and> uint (GetTotalSize sh * GetElementSize dt) =
           prod_list (map sint sh) * sint (GetElementSize dt)"
proof -
  let ?es = "GetElementSize dt"
  have es1: "1 \<le> sint ?es" by (rule GetElementSize_pos)
  have req: "requested (snd (Empty sh dt device)) =
           requested device @ [GetTotalSize sh * GetElementSize dt]"
    by (rule Empty_requested)
  have str: "strides (fst (Empty sh dt device)) = Strides_of sh dt"
    by (simp add: Empty_fst MakeArray_def)
  have len: "length sh = length (Strides_of sh dt)"
    by (simp add: Strides_of_def length_row_major)
  have "GetRequiredBytes sh (Strides_of sh dt) ?es = Some (GetTotalSize sh * ?es)
      \<and> uint (GetTotalSize sh * ?es) = prod_list (map sint sh) * sint ?es"
  proof (cases "0 \<in> set sh")
    case True
    then have z: "GetTotalSize sh = 0"
      by (simp add: GetTotalSize_def prod_list_zero_word)
    from True have "(0::int) \<in> set (map sint sh)" by force
    then have "prod_list (map sint sh) = 0" by (simp add: prod_list_zero_iff)
    with z len show ?thesis by (simp add: GetRequiredBytes_def)
  next
    case False
    have pos: "\<forall>d\<in>set sh. 1 \<le> sint d"
    proof
      fix d assume d: "d \<in> set sh"
      with False have "d \<noteq> 0" by auto
      then have "sint d \<noteq> 0" by (simp add: signed_eq_0_iff)
      moreover from nonneg d have "0 \<le> sint d" by simp
      ultimately show "1 \<le> sint d" by linarith
    qed
    then have P1: "1 \<le> prod_list (map sint sh)" by (rule prod_sint_pos)
    from fits have fits': "sint ?es * prod_list (map sint sh) < 2 ^ 63" by (simp add: mult_ac)
    have sprod: "sint (?es * prod_list sh) = sint ?es * prod_list (map sint sh)"
      using pos es1 fits' by (rule sint_scaled_prod)
    have "prod_list (map sint sh) * 1 \<le> prod_list (map sint sh) * sint ?es"
      using P1 es1 by (intro mult_left_mono) simp_all
    with fits have "1 * prod_list (map sint sh) < 2 ^ 63" by simp
    with pos have "sint (1 * prod_list sh) = sint (1 :: 64 word) * prod_list (map sint sh)"
      by (intro sint_scaled_prod) simp_all
    with P1 have "sint (GetTotalSize sh) \<noteq> 0" by (simp add: GetTotalSize_def)
    then have nz: "GetTotalSize sh \<noteq> 0" by (simp add: signed_eq_0_iff)
    have "bytes_loop sh (Strides_of sh dt) 0 ?es =
            ?es + (\<Sum>(s, t)\<leftarrow>zip sh (row_major sh ?es). (s - 1) * std_abs t)"
      using index_sum_zip [of sh "row_major sh ?es" "\<lambda>s t. (s - 1) * std_abs t"]
      by (simp add: bytes_loop_sum Strides_of_def length_row_major)
    also have "\<dots> = ?es + (?es * prod_list sh - ?es)"
      using pos es1 fits' by (simp only: row_major_span)
    also have "\<dots> = GetTotalSize sh * ?es" by (simp add: GetTotalSize_def mult_ac)
    finally have bytes: "GetRequiredBytes sh (Strides_of sh dt) ?es = Some (GetTotalSize sh * ?es)"
      using nz len by (simp add: GetRequiredBytes_def)
    have nonneg_val: "0 \<le> sint (?es * prod_list sh)"
      using sprod es1 P1 by simp
    have "sint (?es * prod_list sh) < 2 ^ 64"
      using sint_lt [of "?es * prod_list sh"] by simp
    with nonneg_val have "take_bit 64 (sint (?es * prod_list sh)) = sint (?es * prod_list sh)"
      by (rule take_bit_int_eq_self)
    then have "uint (?es * prod_list sh) = sint (?es * prod_list sh)"
      by (simp add: uint_sint)
    with sprod have "uint (GetTotalSize sh * ?es) = prod_list (map sint sh) * sint ?es"
      by (simp add: GetTotalSize_def mult_ac)
    with bytes show ?thesis by simp
  qed
  with req str show ?thesis by simp
qed

theorem Empty_bytesize_closed_form_witness:
  "0 \<le> sint (2 :: int64_t) \<and> 0 \<le> sint (3 :: int64_t)
   \<and> prod_list (map sint [2, 3 :: int64_t]) * sint (GetElementSize kInt32) < 2 ^ 63
   \<and> requested (snd (Empty [2, 3] kInt32 \<lparr>requested = [], memory = \<lambda>h. None\<rparr>)) = [24]
   \<and> Strides_of [2, 3] kInt32 = [12, 4]
   \<and> GetRequiredBytes [2, 3] [12, 4] 4 = Some 24"
  using Empty_bytesize_closed_form [of "[2, 3]" kInt32 "\<lparr>requested = [], memory = \<lambda>h. None\<rparr>"]
  by (simp add: GetTotalSize_def Strides_of_def)

section \<open>Arange\<close>

lemma Arange_zero:
  "val step = 0 \<Longrightarrow> Arange start stop step dt device = (Inl XchainerError, device)"
  by (simp add: Arange_def Scalar_eq_def Scalar_zero_def)

lemma Arange_nonzero:
  "val step \<noteq> 0 \<Longrightarrow> Arange start stop step dt device =
     Arange_with_size (Arange_size start stop step) start step dt device"
  by (simp add: Arange_def Scalar_eq_def Scalar_zero_def)

lemma Arange_with_size_fst:
  "fst (Arange_with_size sz start step dt device) =
     (if 2 <s sz \<and> dt = kBool then Inl DtypeError
      else Inr (MakeArray [sz] (Strides_of [sz] dt) dt (length (requested device))))"
  by (simp add: Arange_with_size_def Empty_fst split_beta)

lemma Arange_with_size_snd:
  "snd (Arange_with_size sz start step dt device) =
     (if 2 <s sz \<and> dt = kBool then device
      else Device_Arange start step (fst (Empty [sz] dt device)) (snd (Empty [sz] dt device)))"
  by (simp add: Arange_with_size_def split_beta)

lemma round_half_even_neg: "round_half_even (- x) = - round_half_even x"
proof (cases "x \<in> \<int>")
  case True
  then obtain k :: int where "x = of_int k" by (auto elim: Ints_cases)
  then show ?thesis by (simp add: round_half_even_def flip: of_int_minus)
next
  case False
  then have "x \<noteq> of_int \<lfloor>x\<rfloor>" by (metis Ints_of_int)
  then have fl: "\<lfloor>- x\<rfloor> = - \<lfloor>x\<rfloor> - 1"
    by (simp add: floor_minus ceiling_altdef)
  let ?f = "\<lfloor>x\<rfloor>"
  let ?r = "x - of_int ?f"
  have r': "- x - of_int (\<lfloor>- x\<rfloor>) = 1 - ?r" by (simp add: fl)
  have ev: "even (- ?f - 1) \<longleftrightarrow> odd ?f" by simp
  show ?thesis
    unfolding round_half_even_def Let_def r' unfolding fl ev
    by (auto simp add: field_simps)
qed

lemma round_to_double_neg: "round_to_double (- x) = d_neg (round_to_double x)"
  by (simp add: round_to_double_def Let_def round_half_even_neg)

lemma d_neg_d_neg: "d_neg (d_neg d) = d"
  by (cases d) simp_all

lemma round_to_double_not_NaN: "round_to_double x \<noteq> NaN"
  by (simp add: round_to_double_def Let_def)

lemma d_div_zero_not_Finite: "d_div x (Finite 0) \<noteq> Finite q"
  by (cases x) simp_all

lemma d_less_zero_d_neg:
  "d \<noteq> Finite 0 \<Longrightarrow> d \<noteq> NaN \<Longrightarrow> d_less_zero (d_neg d) \<longleftrightarrow> \<not> d_less_zero d"
  by (cases d) auto

lemma Arange_size_flip:
  assumes "to_double step \<noteq> Finite 0"
  shows "Arange_size stop start (step\<lparr>val := - val step\<rparr>) = Arange_size start stop step"
proof -
  let ?d = "to_double step"
  have neg: "to_double (step\<lparr>val := - val step\<rparr>) = d_neg ?d"
    by (simp add: to_double_def round_to_double_neg)
  have nn: "?d \<noteq> NaN" by (simp add: to_double_def round_to_double_not_NaN)
  show ?thesis
    using d_less_zero_d_neg [OF assms nn]
    by (simp add: Arange_size_def Arange_normalize_def neg d_neg_d_neg)
qed

lemma sint_d_to_int64_ceil:
  assumes "- (2 ^ 63) \<le> \<lceil>q\<rceil>" and "\<lceil>q\<rceil> < 2 ^ 63"
  shows "sint (d_to_int64 (d_ceil (Finite q))) = \<lceil>q\<rceil>"
proof -
  have "- (2 ^ 63) \<le> c \<Longrightarrow> c < 2 ^ 63 \<Longrightarrow> sint (word_of_int c :: 64 word) = c" for c :: int
    by (simp add: sint_sbintrunc' signed_take_bit_int_eq_self)
  with assms show ?thesis by (simp add: Let_def)
qed

lemma sint_std_max: "sint (std_max a b) = max (sint a) (sint b)"
  by (simp add: std_max_def word_sless_alt max_def)

lemmas double_eval =
  Arange_size_def Arange_normalize_def to_double_def Scalar_of_int_def std_max_def
  round_to_double_def ilog2_def bitlen.simps round_half_even_def power_int_minus Let_def
  word_sless_alt

subsection \<open>Rounding: exponent, error bound, exactness on integers\<close>

lemma bitlen_pos: "0 < n \<Longrightarrow> 1 \<le> bitlen n"
proof -
  assume n: "0 < n"
  have "0 \<le> bitlen m" for m
    by (induction m rule: bitlen.induct) (subst bitlen.simps, simp)
  then have "0 \<le> bitlen (n div 2)" .
  with n show ?thesis by (subst bitlen.simps) simp
qed

lemma bitlen_bounds:
  "0 < n \<Longrightarrow> 2 ^ nat (bitlen n - 1) \<le> n \<and> n < 2 ^ nat (bitlen n)"
proof (induction n rule: bitlen.induct)
  case (1 n)
  show ?case
  proof (cases "n = 1")
    case True
    have "bitlen 1 = 1" by (simp add: bitlen.simps)
    with True show ?thesis by simp
  next
    case False
    with "1.prems" have n2: "2 \<le> n" by simp
    then have h: "0 < n div 2" by simp
    from "1.prems" have nle: "\<not> n \<le> 0" by simp
    from "1.IH" [OF nle h]
    have IH: "2 ^ nat (bitlen (n div 2) - 1) \<le> n div 2" "n div 2 < 2 ^ nat (bitlen (n div 2))"
      by simp_all
    have bl: "bitlen n = 1 + bitlen (n div 2)" using nle by (subst bitlen.simps) simp
    have b1: "1 \<le> bitlen (n div 2)" using h by (rule bitlen_pos)
    then have e1: "nat (bitlen n - 1) = Suc (nat (bitlen (n div 2) - 1))"
      and e2: "nat (bitlen n) = Suc (nat (bitlen (n div 2)))"
      unfolding bl by simp_all
    have "2 * 2 ^ nat (bitlen (n div 2) - 1) \<le> 2 * (n div 2)" using IH(1) by simp
    also have "\<dots> \<le> n" by simp
    finally have lo: "2 ^ nat (bitlen n - 1) \<le> n" unfolding e1 by simp
    have "n div 2 + 1 \<le> 2 ^ nat (bitlen (n div 2))" using IH(2) by simp
    then have "2 * (n div 2 + 1) \<le> 2 * 2 ^ nat (bitlen (n div 2))" by simp
    moreover have "n < 2 * (n div 2 + 1)" by presburger
    ultimately have hi: "n < 2 ^ nat (bitlen n)" unfolding e2 by simp
    from lo hi show ?thesis by simp
  qed
qed


lemma ilog2_bounds:
  assumes "0 < x"
  shows "2 powi (ilog2 x) \<le> x \<and> x < 2 powi (ilog2 x + 1)"
proof (cases "1 \<le> x")
  case True
  let ?n = "\<lfloor>x\<rfloor>"
  from True have n: "0 < ?n" by simp
  from bitlen_bounds [OF n] have b: "2 ^ nat (bitlen ?n - 1) \<le> ?n" "?n < 2 ^ nat (bitlen ?n)"
    by simp_all
  have b1: "1 \<le> bitlen ?n" using n by (rule bitlen_pos)
  have il: "ilog2 x = bitlen ?n - 1" using True by (simp add: ilog2_def)
  have p1: "(2::real) powi (bitlen ?n - 1) = 2 ^ nat (bitlen ?n - 1)"
    using b1 by (simp add: power_int_def)
  have il1: "ilog2 x + 1 = bitlen ?n" by (simp add: il)
  have p2: "(2::real) powi (bitlen ?n) = 2 ^ nat (bitlen ?n)"
    using b1 by (simp add: power_int_def)
  have "real_of_int (2 ^ nat (bitlen ?n - 1)) \<le> real_of_int ?n" using b(1) by linarith
  also have "\<dots> \<le> x" by simp
  finally have lo: "2 powi (ilog2 x) \<le> x" by (simp add: il p1)
  have "?n + 1 \<le> 2 ^ nat (bitlen ?n)" using b(2) by simp
  then have "real_of_int (?n + 1) \<le> real_of_int (2 ^ nat (bitlen ?n))" by linarith
  moreover have "x < real_of_int (?n + 1)" by simp
  ultimately have "x < real_of_int (2 ^ nat (bitlen ?n))" by linarith
  then have hi: "x < 2 powi (ilog2 x + 1)" by (simp only: il1 p2 of_int_power of_int_numeral)
  from lo hi show ?thesis by simp
next
  case False
  let ?y = "1 / x"
  let ?n = "\<lceil>?y\<rceil> - 1"
  from False assms have y1: "1 < ?y" by simp
  then have c2: "2 \<le> \<lceil>?y\<rceil>" by linarith
  then have n: "0 < ?n" by simp
  from bitlen_bounds [OF n] have b: "2 ^ nat (bitlen ?n - 1) \<le> ?n" "?n < 2 ^ nat (bitlen ?n)"
    by simp_all
  have b1: "1 \<le> bitlen ?n" using n by (rule bitlen_pos)
  have il: "ilog2 x = - bitlen ?n" using False by (simp add: ilog2_def)
  have p1: "(2::real) powi (- bitlen ?n) = 1 / 2 ^ nat (bitlen ?n)"
    using b1 by (simp add: power_int_def field_simps)
  have il1: "ilog2 x + 1 = - (bitlen ?n - 1)" by (simp add: il)
  have p2: "(2::real) powi (- (bitlen ?n - 1)) = 1 / 2 ^ nat (bitlen ?n - 1)"
    using b1 by (simp only: power_int_minus_divide) (simp add: power_int_def)
  have "?n + 1 \<le> 2 ^ nat (bitlen ?n)" using b(2) by simp
  then have "real_of_int (?n + 1) \<le> real_of_int (2 ^ nat (bitlen ?n))" by linarith
  moreover have "?y \<le> real_of_int (?n + 1)" by simp
  ultimately have "?y \<le> real_of_int (2 ^ nat (bitlen ?n))" by linarith
  then have "?y \<le> 2 ^ nat (bitlen ?n)" by (simp only: of_int_power of_int_numeral)
  then have lo: "1 / 2 ^ nat (bitlen ?n) \<le> x"
    using assms by (simp add: field_simps)
  have "real_of_int (2 ^ nat (bitlen ?n - 1)) \<le> real_of_int ?n" using b(1) by linarith
  moreover have "real_of_int ?n < ?y" by linarith
  ultimately have "real_of_int (2 ^ nat (bitlen ?n - 1)) < ?y" by linarith
  then have "2 ^ nat (bitlen ?n - 1) < ?y" by (simp only: of_int_power of_int_numeral)
  then have hi: "x < 1 / 2 ^ nat (bitlen ?n - 1)"
    using assms by (simp add: field_simps)
  from lo have "2 powi (ilog2 x) \<le> x" by (simp only: il p1)
  moreover from hi have "x < 2 powi (ilog2 x + 1)" by (simp only: il1 p2)
  ultimately show ?thesis by simp
qed

lemma round_half_even_err: "\<bar>real_of_int (round_half_even x) - x\<bar> \<le> 1 / 2"
  unfolding round_half_even_def Let_def by (auto simp add: abs_if) linarith+

lemma round_half_even_int: "round_half_even (real_of_int k) = k"
  by (simp add: round_half_even_def)

lemma ilog2_ge:
  assumes "0 < x" and "2 powi k \<le> x"
  shows "k \<le> ilog2 x"
proof (rule ccontr)
  assume "\<not> k \<le> ilog2 x"
  then have "ilog2 x + 1 \<le> k" by simp
  then have "(2::real) powi (ilog2 x + 1) \<le> 2 powi k" by (intro power_int_increasing) simp_all
  with ilog2_bounds [OF assms(1)] assms(2) show False by linarith
qed

lemma ilog2_less:
  assumes "0 < x" and "x < 2 powi k"
  shows "ilog2 x < k"
proof (rule ccontr)
  assume "\<not> ilog2 x < k"
  then have "k \<le> ilog2 x" by simp
  then have "(2::real) powi k \<le> 2 powi (ilog2 x)" by (intro power_int_increasing) simp_all
  with ilog2_bounds [OF assms(1)] assms(2) show False by linarith
qed

lemma round_to_double_int:
  assumes "\<bar>n\<bar> < 2 ^ 53"
  shows "round_to_double (real_of_int n) = Finite (real_of_int n)"
proof (cases "n = 0")
  case True
  then show ?thesis by (simp add: round_to_double_def)
next
  case False
  let ?x = "real_of_int n"
  have "1 \<le> \<bar>n\<bar>" using False by linarith
  then have "real_of_int 1 \<le> real_of_int \<bar>n\<bar>" by (simp only: of_int_le_iff)
  then have x1: "1 \<le> \<bar>?x\<bar>" by simp
  then have pos: "0 < \<bar>?x\<bar>" by linarith
  have "real_of_int \<bar>n\<bar> < real_of_int (2 ^ 53)" using assms by (simp only: of_int_less_iff)
  then have xlt: "\<bar>?x\<bar> < 2 powi 53" by simp
  let ?L = "ilog2 \<bar>?x\<bar>"
  have L0: "0 \<le> ?L" using pos x1 by (intro ilog2_ge) simp_all
  have L53: "?L < 53" using pos xlt by (rule ilog2_less)
  have e: "max (?L - 52) (- 1074) = ?L - 52" using L0 by simp
  let ?k = "nat (52 - ?L)"
  have pw: "(2::real) powi (?L - 52) = 1 / 2 ^ ?k"
  proof -
    have "(2::real) powi (?L - 52) = 2 powi (- int ?k)" using L53 by simp
    also have "\<dots> = 1 / 2 ^ ?k" by (simp only: power_int_minus_divide power_int_of_nat)
    finally show ?thesis .
  qed
  have q: "?x / 2 powi (?L - 52) = real_of_int (n * 2 ^ ?k)" by (simp add: pw)
  have r: "round_half_even (?x / 2 powi (?L - 52)) = n * 2 ^ ?k"
    unfolding q by (rule round_half_even_int)
  have y: "real_of_int (n * 2 ^ ?k) * 2 powi (?L - 52) = ?x" by (simp add: pw)
  have "\<bar>?x\<bar> < 2 powi 1024"
  proof -
    have "(2::real) powi 53 \<le> 2 powi 1024" by (intro power_int_increasing) simp_all
    with xlt show ?thesis by linarith
  qed
  then have nov: "\<not> 2 powi 1024 \<le> \<bar>?x\<bar>" by simp
  have nz: "?x \<noteq> 0" using False by simp
  show ?thesis
    unfolding round_to_double_def Let_def e r y using nov nz by simp
qed

lemma round_to_double_err:
  assumes lo: "2 powi (- 1022) \<le> \<bar>x\<bar>" and hi: "\<bar>x\<bar> < 2 powi 1023"
  shows "\<exists>y. round_to_double x = Finite y \<and> \<bar>y - x\<bar> \<le> \<bar>x\<bar> * 2 powi (- 53)"
proof -
  have "(0::real) < 2 powi (- 1022)" by simp
  with lo have pos: "0 < \<bar>x\<bar>" by linarith
  then have nz: "x \<noteq> 0" by auto
  let ?L = "ilog2 \<bar>x\<bar>"
  have Llo: "- 1022 \<le> ?L" using pos lo by (rule ilog2_ge)
  have Lb: "2 powi ?L \<le> \<bar>x\<bar>" using ilog2_bounds [OF pos] by simp
  have e: "max (?L - 52) (- 1074) = ?L - 52" using Llo by simp
  let ?p = "(2::real) powi (?L - 52)"
  let ?m = "round_half_even (x / ?p)"
  let ?y = "real_of_int ?m * ?p"
  have pp: "0 < ?p" by simp
  have "\<bar>?y - x\<bar> = \<bar>real_of_int ?m - x / ?p\<bar> * ?p"
  proof -
    have "?y - x = (real_of_int ?m - x / ?p) * ?p" using pp by (simp add: field_simps)
    then show ?thesis using pp by (simp add: abs_mult)
  qed
  also have "\<dots> \<le> (1 / 2) * ?p"
    using round_half_even_err [of "x / ?p"] pp by (intro mult_right_mono) simp_all
  also have "(1 / 2) * ?p = 2 powi ?L * 2 powi (- 53)"
  proof -
    have "(2::real) powi (?L - 52) = 2 powi (?L + (- 53) + 1)" by simp
    also have "\<dots> = 2 powi (?L + (- 53)) * 2" by (rule power_int_add_1) simp
    also have "(2::real) powi (?L + (- 53)) = 2 powi ?L * 2 powi (- 53)"
      by (rule power_int_add) simp
    finally show ?thesis by simp
  qed
  also have "\<dots> \<le> \<bar>x\<bar> * 2 powi (- 53)" using Lb by (intro mult_right_mono) simp_all
  finally have err: "\<bar>?y - x\<bar> \<le> \<bar>x\<bar> * 2 powi (- 53)" .
  have "(2::real) powi (- 53) \<le> 1" by (simp add: power_int_minus_divide)
  then have "\<bar>x\<bar> * 2 powi (- 53) \<le> \<bar>x\<bar> * 1" by (intro mult_left_mono) simp_all
  with err have "\<bar>?y\<bar> \<le> \<bar>x\<bar> + \<bar>x\<bar>" by linarith
  also have "\<dots> < 2 powi 1023 * 2" using hi by simp
  also have "(2::real) powi 1023 * 2 = 2 powi 1024"
    using power_int_add_1 [of "2::real" 1023] by simp
  finally have nov: "\<not> 2 powi 1024 \<le> \<bar>?y\<bar>" by simp
  have "round_to_double x = Finite ?y"
    unfolding round_to_double_def Let_def e using nov nz by simp
  with err show ?thesis by blast
qed

lemma d_div_int_ceiling:
  fixes p q :: int
  assumes q0: "0 < q" and q53: "q < 2 ^ 53" and p53: "\<bar>p\<bar> < 2 ^ 53"
  shows "\<exists>y. d_div (Finite (real_of_int p)) (Finite (real_of_int q)) = Finite y
           \<and> \<lceil>y\<rceil> = \<lceil>real_of_int p / real_of_int q\<rceil>"
proof (cases "p = 0")
  case True
  then show ?thesis using q0 by (simp add: round_to_double_def)
next
  case False
  let ?x = "real_of_int p / real_of_int q"
  let ?c = "\<lceil>?x\<rceil>"
  have rq: "0 < real_of_int q" using q0 by simp
  have dd: "d_div (Finite (real_of_int p)) (Finite (real_of_int q)) = round_to_double ?x"
    using q0 by simp
  have ap: "1 \<le> \<bar>real_of_int p\<bar>"
  proof -
    have "1 \<le> \<bar>p\<bar>" using False by linarith
    then have "real_of_int 1 \<le> real_of_int \<bar>p\<bar>" by (simp only: of_int_le_iff)
    then show ?thesis by simp
  qed
  have ap53: "\<bar>real_of_int p\<bar> < 2 ^ 53"
  proof -
    have "real_of_int \<bar>p\<bar> < real_of_int (2 ^ 53)" using p53 by (simp only: of_int_less_iff)
    then show ?thesis by simp
  qed
  have rq53: "real_of_int q < 2 ^ 53"
  proof -
    have "real_of_int q < real_of_int (2 ^ 53)" using q53 by (simp only: of_int_less_iff)
    then show ?thesis by simp
  qed
  have rq1: "1 \<le> real_of_int q" using q0 by simp
  have ax: "\<bar>?x\<bar> = \<bar>real_of_int p\<bar> / real_of_int q" using rq by simp
  have xlo: "1 / real_of_int q \<le> \<bar>?x\<bar>"
    unfolding ax using ap rq by (intro divide_right_mono) simp_all
  have xhi: "\<bar>?x\<bar> < 2 ^ 53 / real_of_int q"
    unfolding ax using ap53 rq by (intro divide_strict_right_mono) simp_all
  have xle: "\<bar>?x\<bar> \<le> \<bar>real_of_int p\<bar>"
  proof -
    have "\<bar>real_of_int p\<bar> * 1 \<le> \<bar>real_of_int p\<bar> * real_of_int q"
      using rq1 by (intro mult_left_mono) simp_all
    then have "\<bar>real_of_int p\<bar> / real_of_int q \<le> \<bar>real_of_int p\<bar>"
      using rq by (simp add: field_simps)
    then show ?thesis by (simp only: ax)
  qed
  show ?thesis
  proof (cases "?x = real_of_int ?c")
    case True
    have "\<bar>real_of_int ?c\<bar> < 2 ^ 53" using xle ap53 True by linarith
    then have "real_of_int \<bar>?c\<bar> < real_of_int (2 ^ 53)" by simp
    then have "\<bar>?c\<bar> < 2 ^ 53" by (simp only: of_int_less_iff)
    then have "round_to_double (real_of_int ?c) = Finite (real_of_int ?c)"
      by (rule round_to_double_int)
    then have "round_to_double ?x = Finite ?x" using True by simp
    with dd show ?thesis by simp
  next
    case ni: False
    have lo: "2 powi (- 1022) \<le> \<bar>?x\<bar>"
    proof -
      have "(2::real) powi (- 1022) \<le> 2 powi (- 53)" by (intro power_int_increasing) simp_all
      also have "\<dots> = 1 / 2 ^ 53" by (simp add: power_int_minus_divide)
      also have "\<dots> \<le> 1 / real_of_int q" using rq rq53 by (intro divide_left_mono) simp_all
      finally show ?thesis using xlo by linarith
    qed
    have hi: "\<bar>?x\<bar> < 2 powi 1023"
    proof -
      have "(2::real) powi 53 \<le> 2 powi 1023" by (intro power_int_increasing) simp_all
      with xle ap53 show ?thesis by simp
    qed
    from round_to_double_err [OF lo hi] obtain y where
      y: "round_to_double ?x = Finite y" and err: "\<bar>y - ?x\<bar> \<le> \<bar>?x\<bar> * 2 powi (- 53)"
      by blast
    have "\<bar>?x\<bar> * 2 powi (- 53) < (2 ^ 53 / real_of_int q) * 2 powi (- 53)"
      using xhi by (intro mult_strict_right_mono) simp_all
    also have "\<dots> = 1 / real_of_int q" by (simp add: power_int_minus_divide)
    finally have e: "\<bar>y - ?x\<bar> < 1 / real_of_int q" using err by linarith
    have xc: "?x < real_of_int ?c" using ni le_of_int_ceiling [of ?x] by linarith
    have cx: "real_of_int ?c - 1 < ?x" by linarith
    have xq: "?x * real_of_int q = real_of_int p" using rq by simp
    have "?x * real_of_int q < real_of_int ?c * real_of_int q"
      using xc rq by (rule mult_strict_right_mono)
    then have "real_of_int p < real_of_int (?c * q)" by (simp only: xq of_int_mult)
    then have "p < ?c * q" by (simp only: of_int_less_iff)
    then have "p + 1 \<le> ?c * q" by simp
    then have "real_of_int (p + 1) \<le> real_of_int (?c * q)" by (simp only: of_int_le_iff)
    then have "real_of_int p + 1 \<le> real_of_int ?c * real_of_int q" by simp
    moreover have inv: "1 / real_of_int q * real_of_int q = 1" using rq by simp
    then have "(?x + 1 / real_of_int q) * real_of_int q = real_of_int p + 1"
      by (simp only: distrib_right xq)
    ultimately
    have "(?x + 1 / real_of_int q) * real_of_int q \<le> real_of_int ?c * real_of_int q"
      by (simp only:)
    then have up: "?x + 1 / real_of_int q \<le> real_of_int ?c"
      using rq by (simp only: mult_le_cancel_right_pos)
    have "(real_of_int ?c - 1) * real_of_int q < ?x * real_of_int q"
      using cx rq by (rule mult_strict_right_mono)
    then have "real_of_int ((?c - 1) * q) < real_of_int p"
      by (simp only: xq of_int_mult of_int_diff of_int_1)
    then have "(?c - 1) * q < p" by (simp only: of_int_less_iff)
    then have "(?c - 1) * q + 1 \<le> p" by simp
    then have "real_of_int ((?c - 1) * q + 1) \<le> real_of_int p" by (simp only: of_int_le_iff)
    then have "(real_of_int ?c - 1) * real_of_int q + 1 \<le> real_of_int p" by simp
    moreover have "(real_of_int ?c - 1 + 1 / real_of_int q) * real_of_int q =
        (real_of_int ?c - 1) * real_of_int q + 1"
      using inv by (simp only: distrib_right)
    ultimately
    have "(real_of_int ?c - 1 + 1 / real_of_int q) * real_of_int q \<le> ?x * real_of_int q"
      by (simp only: xq)
    then have dn: "real_of_int ?c - 1 + 1 / real_of_int q \<le> ?x"
      using rq by (simp only: mult_le_cancel_right_pos)
    from e up dn have "real_of_int ?c - 1 < y" "y \<le> real_of_int ?c" by linarith+
    then have "\<lceil>y\<rceil> = ?c" by (intro ceiling_unique) simp_all
    with dd y show ?thesis by simp
  qed
qed

lemma Arange_size_int_exact:
  fixes i0 i1 i2 :: int
  assumes v0: "val start = real_of_int i0" and v1: "val stop = real_of_int i1"
      and v2: "val step = real_of_int i2"
      and nz: "i2 \<noteq> 0"
      and b0: "\<bar>i0\<bar> < 2 ^ 52" and b1: "\<bar>i1\<bar> < 2 ^ 52" and b2: "\<bar>i2\<bar> < 2 ^ 53"
  shows "sint (Arange_size start stop step) =
           max 0 \<lceil>(real_of_int i1 - real_of_int i0) / real_of_int i2\<rceil>"
proof -
  have c0: "to_double start = Finite (real_of_int i0)"
    unfolding to_double_def v0 using b0 by (intro round_to_double_int) simp
  have c1: "to_double stop = Finite (real_of_int i1)"
    unfolding to_double_def v1 using b1 by (intro round_to_double_int) simp
  have c2: "to_double step = Finite (real_of_int i2)"
    unfolding to_double_def v2 using b2 by (rule round_to_double_int)
  have sub: "d_sub (Finite (real_of_int a)) (Finite (real_of_int b)) = Finite (real_of_int (a - b))"
    if "\<bar>a\<bar> < 2 ^ 52" "\<bar>b\<bar> < 2 ^ 52" for a b :: int
  proof -
    have "\<bar>a - b\<bar> < 2 ^ 53" using that by simp
    then have "round_to_double (real_of_int (a - b)) = Finite (real_of_int (a - b))"
      by (rule round_to_double_int)
    then show ?thesis by simp
  qed
  have fin: "sint (std_max 0 (d_to_int64 (d_ceil (Finite y)))) = max 0 \<lceil>y\<rceil>"
    if "\<lceil>y\<rceil> = \<lceil>real_of_int p / real_of_int q\<rceil>" "0 < q" "\<bar>p\<bar> < 2 ^ 53" for y p q
  proof -
    have rq: "1 \<le> real_of_int q" using that(2) by simp
    have "\<bar>real_of_int p / real_of_int q\<bar> \<le> \<bar>real_of_int p\<bar>"
    proof -
      have "\<bar>real_of_int p\<bar> * 1 \<le> \<bar>real_of_int p\<bar> * real_of_int q"
        using rq by (intro mult_left_mono) simp_all
      then show ?thesis using rq by (simp add: field_simps)
    qed
    moreover have "\<bar>real_of_int p\<bar> < 2 ^ 53"
    proof -
      have "real_of_int \<bar>p\<bar> < real_of_int (2 ^ 53)" using that(3) by (simp only: of_int_less_iff)
      then show ?thesis by simp
    qed
    ultimately have ax: "\<bar>real_of_int p / real_of_int q\<bar> < 2 ^ 53" by linarith
    have e53: "real_of_int (2 ^ 53) = 2 ^ 53" by simp
    have up: "real_of_int p / real_of_int q \<le> real_of_int (2 ^ 53)"
      unfolding e53 using ax by linarith
    have dn: "real_of_int (- (2 ^ 53)) < real_of_int p / real_of_int q"
      unfolding of_int_minus e53 using ax by linarith
    from up have c1: "\<lceil>real_of_int p / real_of_int q\<rceil> \<le> 2 ^ 53"
      by (simp only: ceiling_le_iff)
    have "real_of_int p / real_of_int q \<le> real_of_int \<lceil>real_of_int p / real_of_int q\<rceil>"
      by (rule le_of_int_ceiling)
    with dn have "real_of_int (- (2 ^ 53)) < real_of_int \<lceil>real_of_int p / real_of_int q\<rceil>"
      by linarith
    then have c2: "- (2 ^ 53) < \<lceil>real_of_int p / real_of_int q\<rceil>"
      by (simp only: of_int_less_iff)
    from c1 c2 have "- (2 ^ 63) \<le> \<lceil>y\<rceil>" "\<lceil>y\<rceil> < 2 ^ 63" unfolding that(1) by simp_all
    then have "sint (d_to_int64 (d_ceil (Finite y))) = \<lceil>y\<rceil>" by (rule sint_d_to_int64_ceil)
    then show ?thesis by (simp add: sint_std_max)
  qed
  show ?thesis
  proof (cases "i2 < 0")
    case True
    then have q: "0 < - i2" "- i2 < 2 ^ 53" using b2 by simp_all
    have p: "\<bar>i0 - i1\<bar> < 2 ^ 53" using b0 b1 by simp
    from d_div_int_ceiling [OF q p] obtain y where
      y: "d_div (Finite (real_of_int (i0 - i1))) (Finite (real_of_int (- i2))) = Finite y"
      and cy: "\<lceil>y\<rceil> = \<lceil>real_of_int (i0 - i1) / real_of_int (- i2)\<rceil>" by blast
    have n: "Arange_normalize (to_double start, to_double stop, to_double step) =
        (Finite (real_of_int i1), Finite (real_of_int i0), Finite (- real_of_int i2))"
      using True by (simp add: Arange_normalize_def c0 c1 c2)
    have s: "d_sub (Finite (real_of_int i0)) (Finite (real_of_int i1)) =
        Finite (real_of_int (i0 - i1))"
      by (rule sub [OF b0 b1])
    have m: "Finite (- real_of_int i2) = Finite (real_of_int (- i2))" by simp
    have "Arange_size start stop step =
        std_max 0 (d_to_int64 (d_ceil (d_div
          (d_sub (Finite (real_of_int i0)) (Finite (real_of_int i1)))
          (Finite (- real_of_int i2)))))"
      unfolding Arange_size_def n by (simp only: prod.case)
    also have "\<dots> = std_max 0 (d_to_int64 (d_ceil (Finite y)))" by (simp only: s m y)
    finally have "sint (Arange_size start stop step) = max 0 \<lceil>y\<rceil>"
      using fin [OF cy q(1) p] by simp
    moreover have "real_of_int (i0 - i1) / real_of_int (- i2) =
        (real_of_int i1 - real_of_int i0) / real_of_int i2"
      using nz by (simp add: field_simps)
    ultimately show ?thesis using cy by simp
  next
    case False
    with nz have q: "0 < i2" "i2 < 2 ^ 53" using b2 by simp_all
    have p: "\<bar>i1 - i0\<bar> < 2 ^ 53" using b0 b1 by simp
    from d_div_int_ceiling [OF q p] obtain y where
      y: "d_div (Finite (real_of_int (i1 - i0))) (Finite (real_of_int i2)) = Finite y"
      and cy: "\<lceil>y\<rceil> = \<lceil>real_of_int (i1 - i0) / real_of_int i2\<rceil>" by blast
    have n: "Arange_normalize (to_double start, to_double stop, to_double step) =
        (Finite (real_of_int i0), Finite (real_of_int i1), Finite (real_of_int i2))"
      using False by (simp add: Arange_normalize_def c0 c1 c2)
    have s: "d_sub (Finite (real_of_int i1)) (Finite (real_of_int i0)) =
        Finite (real_of_int (i1 - i0))"
      by (rule sub [OF b1 b0])
    have "Arange_size start stop step =
        std_max 0 (d_to_int64 (d_ceil (d_div
          (d_sub (Finite (real_of_int i1)) (Finite (real_of_int i0)))
          (Finite (real_of_int i2)))))"
      unfolding Arange_size_def n by (simp only: prod.case)
    also have "\<dots> = std_max 0 (d_to_int64 (d_ceil (Finite y)))" by (simp only: s y)
    finally have "sint (Arange_size start stop step) = max 0 \<lceil>y\<rceil>"
      using fin [OF cy q(1) p] by simp
    then show ?thesis using cy by simp
  qed
qed

text \<open>
  Claim C2. For an \<^verbatim>\<open>Arange\<close> request with nonzero step, the values are normalised first:
  when the step, as a double, is negative, the converted start and stop are swapped and
  the step is negated, so the step used is not negative. The output length is the
  larger of 0 and the ceiling of \<open>(stop - start) / step\<close>, computed on the normalised
  values in double arithmetic (read as an integer when the quotient is finite and its
  ceiling fits \<^verbatim>\<open>int64_t\<close>), and it is the single dimension of the array a successful
  call returns. Sizing is direction-symmetric: exchanging start and stop and negating
  the step gives the same size; \<^verbatim>\<open>Arange(0, 10, 3)\<close> and \<^verbatim>\<open>Arange(10, 0, -3)\<close> both have
  length 4. The quotient is the rounded one: for start 0, stop 1 and the double next
  below one third as step it is exactly 3, and so is the length. For integer start
  and stop below \<open>2^52\<close> and an integer step below \<open>2^53\<close> in magnitude the rounding
  does not change the ceiling: the length is that of the exact quotient.
\<close>

theorem Arange_length:
  assumes "val step \<noteq> 0"
      and "Arange_normalize (to_double start, to_double stop, to_double step) = (a, b, s)"
      and "d_div (d_sub b a) s = Finite q"
      and "- (2 ^ 63) \<le> \<lceil>q\<rceil>" and "\<lceil>q\<rceil> < 2 ^ 63"
  shows "(a, b, s) = (if d_less_zero (to_double step)
                       then (to_double stop, to_double start, d_neg (to_double step))
                       else (to_double start, to_double stop, to_double step))
       \<and> \<not> d_less_zero s
       \<and> sint (Arange_size start stop step) = max 0 \<lceil>q\<rceil>
       \<and> fst (Arange start stop step dt device) =
           (if 2 < max 0 \<lceil>q\<rceil> \<and> dt = kBool then Inl DtypeError
            else Inr (MakeArray [Arange_size start stop step]
                        (Strides_of [Arange_size start stop step] dt) dt
                        (length (requested device))))
       \<and> Arange_size stop start (step\<lparr>val := - val step\<rparr>) = Arange_size start stop step
       \<and> (\<forall>i0 i1 i2 :: int.
            val start = real_of_int i0 \<and> val stop = real_of_int i1 \<and> val step = real_of_int i2
            \<and> \<bar>i0\<bar> < 2 ^ 52 \<and> \<bar>i1\<bar> < 2 ^ 52 \<and> \<bar>i2\<bar> < 2 ^ 53
            \<longrightarrow> sint (Arange_size start stop step) =
                  max 0 \<lceil>(real_of_int i1 - real_of_int i0) / real_of_int i2\<rceil>)
       \<and> Arange_size (Scalar_of_int 0) (Scalar_of_int 10) (Scalar_of_int 3) = 4
       \<and> Arange_size (Scalar_of_int 10) (Scalar_of_int 0) (Scalar_of_int (- 3)) = 4
       \<and> Arange_size \<lparr>val = 0, dtype = kFloat64\<rparr> \<lparr>val = 1, dtype = kFloat64\<rparr>
            \<lparr>val = 6004799503160661 / 2 ^ 54, dtype = kFloat64\<rparr> = 3"
proof -
  let ?d = "to_double step"
  have nn: "?d \<noteq> NaN" by (simp add: to_double_def round_to_double_not_NaN)
  from assms(2) have norm: "(a, b, s) = (if d_less_zero ?d
                       then (to_double stop, to_double start, d_neg ?d)
                       else (to_double start, to_double stop, ?d))"
    by (simp add: Arange_normalize_def split: if_splits)
  then have s: "s = (if d_less_zero ?d then d_neg ?d else ?d)" by (simp split: if_splits)
  have pos: "\<not> d_less_zero s"
    unfolding s by (cases ?d) auto
  from assms(3) have "s \<noteq> Finite 0" using d_div_zero_not_Finite by blast
  with s have nz: "?d \<noteq> Finite 0" by (cases ?d) (auto split: if_splits)
  have "Arange_size start stop step = std_max 0 (d_to_int64 (d_ceil (Finite q)))"
    using assms(2,3) by (simp add: Arange_size_def)
  then have size: "sint (Arange_size start stop step) = max 0 \<lceil>q\<rceil>"
    using sint_d_to_int64_ceil [OF assms(4,5)] by (simp add: sint_std_max)
  then have gt: "2 <s Arange_size start stop step \<longleftrightarrow> 2 < max 0 \<lceil>q\<rceil>"
    by (simp add: word_sless_alt)
  have res: "fst (Arange start stop step dt device) =
           (if 2 < max 0 \<lceil>q\<rceil> \<and> dt = kBool then Inl DtypeError
            else Inr (MakeArray [Arange_size start stop step]
                        (Strides_of [Arange_size start stop step] dt) dt
                        (length (requested device))))"
    using assms(1) by (simp add: Arange_nonzero Arange_with_size_fst gt)
  have flip: "Arange_size stop start (step\<lparr>val := - val step\<rparr>) = Arange_size start stop step"
    using nz by (rule Arange_size_flip)
  have ex1: "Arange_size (Scalar_of_int 0) (Scalar_of_int 10) (Scalar_of_int 3) = 4"
    by (simp add: double_eval)
  have ex2: "Arange_size (Scalar_of_int 10) (Scalar_of_int 0) (Scalar_of_int (- 3)) = 4"
    by (simp add: double_eval)
  have ex3: "Arange_size \<lparr>val = 0, dtype = kFloat64\<rparr> \<lparr>val = 1, dtype = kFloat64\<rparr>
            \<lparr>val = 6004799503160661 / 2 ^ 54, dtype = kFloat64\<rparr> = 3"
    by (simp add: double_eval)
  have exact: "\<forall>i0 i1 i2 :: int.
            val start = real_of_int i0 \<and> val stop = real_of_int i1 \<and> val step = real_of_int i2
            \<and> \<bar>i0\<bar> < 2 ^ 52 \<and> \<bar>i1\<bar> < 2 ^ 52 \<and> \<bar>i2\<bar> < 2 ^ 53
            \<longrightarrow> sint (Arange_size start stop step) =
                  max 0 \<lceil>(real_of_int i1 - real_of_int i0) / real_of_int i2\<rceil>"
  proof (intro allI impI)
    fix i0 i1 i2 :: int
    assume h: "val start = real_of_int i0 \<and> val stop = real_of_int i1
        \<and> val step = real_of_int i2 \<and> \<bar>i0\<bar> < 2 ^ 52 \<and> \<bar>i1\<bar> < 2 ^ 52 \<and> \<bar>i2\<bar> < 2 ^ 53"
    with assms(1) have "i2 \<noteq> 0" by auto
    with h show "sint (Arange_size start stop step) =
        max 0 \<lceil>(real_of_int i1 - real_of_int i0) / real_of_int i2\<rceil>"
      by (intro Arange_size_int_exact) simp_all
  qed
  from norm pos size res flip exact ex1 ex2 ex3 show ?thesis by (simp only: simp_thms)
qed

theorem Arange_length_witness:
  "val (Scalar_of_int (- 3)) \<noteq> 0
   \<and> Arange_normalize (to_double (Scalar_of_int 10), to_double (Scalar_of_int 0),
        to_double (Scalar_of_int (- 3))) = (Finite 0, Finite 10, Finite 3)
   \<and> d_div (d_sub (Finite 10) (Finite 0)) (Finite 3) = Finite (7505999378950827 / 2 ^ 51)
   \<and> - (2 ^ 63) \<le> \<lceil>7505999378950827 / 2 ^ 51 :: real\<rceil>
   \<and> \<lceil>7505999378950827 / 2 ^ 51 :: real\<rceil> < 2 ^ 63
   \<and> \<lceil>7505999378950827 / 2 ^ 51 :: real\<rceil> = 4
   \<and> val (Scalar_of_int 10) = real_of_int 10 \<and> val (Scalar_of_int 0) = real_of_int 0
   \<and> val (Scalar_of_int (- 3)) = real_of_int (- 3)
   \<and> \<lceil>(real_of_int 0 - real_of_int 10) / real_of_int (- 3)\<rceil> = 4
   \<and> sint (Arange_size (Scalar_of_int 10) (Scalar_of_int 0) (Scalar_of_int (- 3))) = 4
   \<and> fst (Arange (Scalar_of_int 10) (Scalar_of_int 0) (Scalar_of_int (- 3)) kInt32
            \<lparr>requested = [], memory = \<lambda>h. None\<rparr>) =
       Inr \<lparr>shape = [4], strides = [4], dtype = kInt32, data = 0, nodes = []\<rparr>"
proof -
  have n: "Arange_normalize (to_double (Scalar_of_int 10), to_double (Scalar_of_int 0),
        to_double (Scalar_of_int (- 3))) = (Finite 0, Finite 10, Finite 3)"
    by (simp add: double_eval)
  have v: "val (Scalar_of_int (- 3)) \<noteq> 0" by (simp add: Scalar_of_int_def)
  have q: "d_div (d_sub (Finite 10) (Finite 0)) (Finite 3) = Finite (7505999378950827 / 2 ^ 51)"
    by (simp add: double_eval)
  have c: "\<lceil>7505999378950827 / 2 ^ 51 :: real\<rceil> = 4" by simp
  have lo: "- (2 ^ 63) \<le> \<lceil>7505999378950827 / 2 ^ 51 :: real\<rceil>" unfolding c by simp
  have hi: "\<lceil>7505999378950827 / 2 ^ 51 :: real\<rceil> < 2 ^ 63" unfolding c by simp
  have sz: "Arange_size (Scalar_of_int 10) (Scalar_of_int 0) (Scalar_of_int (- 3)) = 4"
    by (simp add: double_eval)
  from Arange_length [OF v n q lo hi, of kInt32 "\<lparr>requested = [], memory = \<lambda>h. None\<rparr>"]
  have "sint (Arange_size (Scalar_of_int 10) (Scalar_of_int 0) (Scalar_of_int (- 3))) = 4
      \<and> fst (Arange (Scalar_of_int 10) (Scalar_of_int 0) (Scalar_of_int (- 3)) kInt32
            \<lparr>requested = [], memory = \<lambda>h. None\<rparr>) =
          Inr \<lparr>shape = [4], strides = [4], dtype = kInt32, data = 0, nodes = []\<rparr>"
    by (simp add: c sz MakeArray_def Strides_of_def)
  moreover have "val (Scalar_of_int 10) = real_of_int 10 \<and> val (Scalar_of_int 0) = real_of_int 0
      \<and> val (Scalar_of_int (- 3)) = real_of_int (- 3)
      \<and> \<lceil>(real_of_int 0 - real_of_int 10) / real_of_int (- 3)\<rceil> = 4"
    by (simp add: Scalar_of_int_def)
  ultimately show ?thesis using v n q c lo hi by simp
qed

text \<open>
  Claim C7. For every start, stop and dtype, an \<^verbatim>\<open>Arange\<close> request whose step equals 0
  fails with the error the routine throws for a zero step (\<^verbatim>\<open>XchainerError\<close>, the spec's
  InvalidArgument), and the device is returned as it was: no memory request has been
  issued. The same holds when the dtype is inferred.
\<close>

theorem Arange_zero_step:
  assumes "val step = 0"
  shows "Arange start stop step dt device = (Inl XchainerError, device)
       \<and> Arange_infer start stop step device = (Inl XchainerError, device)"
  using assms by (simp add: Arange_zero Arange_infer_def)

theorem Arange_zero_step_witness:
  "val \<lparr>val = 0, dtype = kFloat64\<rparr> = 0
   \<and> Arange (Scalar_of_int 0) (Scalar_of_int 5) \<lparr>val = 0, dtype = kFloat64\<rparr> kInt64
        \<lparr>requested = [], memory = \<lambda>h. None\<rparr> =
       (Inl XchainerError, \<lparr>requested = [], memory = \<lambda>h. None\<rparr>)"
  using Arange_zero_step [of "\<lparr>val = 0, dtype = kFloat64\<rparr>" "Scalar_of_int 0" "Scalar_of_int 5"
      kInt64 "\<lparr>requested = [], memory = \<lambda>h. None\<rparr>"]
  by simp

lemma Device_Arange_requested: "requested (Device_Arange start step out d) = requested d"
  by (simp add: Device_Arange_def)

text \<open>
  Claim C8. Whatever size the size computation yields, \<^verbatim>\<open>Arange\<close> continues with it as
  follows: with boolean dtype and a size above 2 it fails with \<^verbatim>\<open>DtypeError\<close> (the
  spec's DomainError), and a failure leaves the device as it was. So an \<^verbatim>\<open>Arange\<close>
  request with boolean dtype whose computed length exceeds 2 (the length is computed
  once the zero-step check has passed) fails with \<^verbatim>\<open>DtypeError\<close>; whenever \<^verbatim>\<open>Arange\<close>
  fails, with either error, the device is returned unchanged, so no allocation has
  happened on an error path; a successful call has issued exactly one request, for
  the array it returns.
\<close>

theorem Arange_validation_before_allocation:
  "(2 <s sz \<longrightarrow> Arange_with_size sz start step kBool device = (Inl DtypeError, device))
   \<and> (isl (fst (Arange_with_size sz start step dt device)) \<longrightarrow>
        snd (Arange_with_size sz start step dt device) = device)
   \<and> (val step \<noteq> 0 \<longrightarrow>
        Arange start stop step dt device =
          Arange_with_size (Arange_size start stop step) start step dt device)
   \<and> (val step \<noteq> 0 \<and> 2 <s Arange_size start stop step \<longrightarrow>
        Arange start stop step kBool device = (Inl DtypeError, device))
   \<and> (isl (fst (Arange start stop step dt device)) \<longrightarrow>
        snd (Arange start stop step dt device) = device)
   \<and> (\<forall>out. fst (Arange start stop step dt device) = Inr out \<longrightarrow>
        requested (snd (Arange start stop step dt device)) =
          requested device @ [GetTotalSize (shape out) * GetElementSize dt])"
proof -
  have 1: "2 <s sz \<longrightarrow> Arange_with_size sz start step kBool device = (Inl DtypeError, device)"
    by (simp add: Arange_with_size_def)
  have 2: "isl (fst (Arange_with_size z start step dt device)) \<longrightarrow>
        snd (Arange_with_size z start step dt device) = device" for z
    by (simp add: Arange_with_size_fst Arange_with_size_snd)
  have 3: "\<forall>out. fst (Arange_with_size z start step dt device) = Inr out \<longrightarrow>
        requested (snd (Arange_with_size z start step dt device)) =
          requested device @ [GetTotalSize (shape out) * GetElementSize dt]" for z
    by (auto simp add: Arange_with_size_fst Arange_with_size_snd Device_Arange_requested
        Empty_requested MakeArray_def split: if_splits)
  show ?thesis
  proof (cases "val step = 0")
    case True
    with 1 2 show ?thesis by (simp add: Arange_zero)
  next
    case False
    with 1 2 3 show ?thesis by (simp add: Arange_nonzero Arange_with_size_def)
  qed
qed

theorem Arange_validation_before_allocation_witness:
  "val (Scalar_of_int 1) \<noteq> 0
   \<and> 2 <s Arange_size (Scalar_of_int 0) (Scalar_of_int 5) (Scalar_of_int 1)
   \<and> Arange_stop_dtype (Scalar_of_int 5) kBool \<lparr>requested = [], memory = \<lambda>h. None\<rparr> =
       (Inl DtypeError, \<lparr>requested = [], memory = \<lambda>h. None\<rparr>)
   \<and> fst (Arange_stop_dtype (Scalar_of_int 2) kBool \<lparr>requested = [], memory = \<lambda>h. None\<rparr>) =
       Inr \<lparr>shape = [2], strides = [1], dtype = kBool, data = 0, nodes = []\<rparr>
   \<and> requested (snd (Arange_stop_dtype (Scalar_of_int 2) kBool
        \<lparr>requested = [], memory = \<lambda>h. None\<rparr>)) = [2]
   \<and> fst (Arange \<lparr>val = 1 / 10, dtype = kFloat64\<rparr> \<lparr>val = 21 / 10, dtype = kFloat64\<rparr>
        \<lparr>val = 1, dtype = kFloat64\<rparr> kBool \<lparr>requested = [], memory = \<lambda>h. None\<rparr>) =
       Inr \<lparr>shape = [2], strides = [1], dtype = kBool, data = 0, nodes = []\<rparr>"
proof -
  let ?d = "\<lparr>requested = [], memory = \<lambda>h. None\<rparr>"
  have v: "val (Scalar_of_int 1) \<noteq> 0" by (simp add: Scalar_of_int_def)
  have s5: "Arange_size (Scalar_of_int 0) (Scalar_of_int 5) (Scalar_of_int 1) = 5"
    by (simp add: double_eval)
  have s2: "Arange_size (Scalar_of_int 0) (Scalar_of_int 2) (Scalar_of_int 1) = 2"
    by (simp add: double_eval)
  have sf: "Arange_size \<lparr>val = 1 / 10, dtype = kFloat64\<rparr> \<lparr>val = 21 / 10, dtype = kFloat64\<rparr>
        \<lparr>val = 1, dtype = kFloat64\<rparr> = 2"
    by (simp add: double_eval)
  have ok: "fst (Arange (Scalar_of_int 0) (Scalar_of_int 2) (Scalar_of_int 1) kBool ?d) =
       Inr \<lparr>shape = [2], strides = [1], dtype = kBool, data = 0, nodes = []\<rparr>"
    using v by (simp add: Arange_nonzero Arange_with_size_fst s2 MakeArray_def Strides_of_def
        word_sless_alt)
  have okf: "fst (Arange \<lparr>val = 1 / 10, dtype = kFloat64\<rparr> \<lparr>val = 21 / 10, dtype = kFloat64\<rparr>
        \<lparr>val = 1, dtype = kFloat64\<rparr> kBool ?d) =
       Inr \<lparr>shape = [2], strides = [1], dtype = kBool, data = 0, nodes = []\<rparr>"
    by (simp add: Arange_nonzero Arange_with_size_fst sf MakeArray_def Strides_of_def
        word_sless_alt)
  note t5 = Arange_validation_before_allocation [where sz = 5 and start = "Scalar_of_int 0"
      and step = "Scalar_of_int 1" and device = ?d and dt = kBool and stop = "Scalar_of_int 5"]
  note t2 = Arange_validation_before_allocation [where sz = 2 and start = "Scalar_of_int 0"
      and step = "Scalar_of_int 1" and device = ?d and dt = kBool and stop = "Scalar_of_int 2"]
  have e5: "Arange (Scalar_of_int 0) (Scalar_of_int 5) (Scalar_of_int 1) kBool ?d =
      (Inl DtypeError, ?d)"
    using t5 v s5 by (simp add: word_sless_alt)
  have r2: "requested (snd (Arange (Scalar_of_int 0) (Scalar_of_int 2) (Scalar_of_int 1) kBool ?d)) =
      [2]"
    using t2 ok by (simp add: GetTotalSize_def)
  from v s5 e5 ok r2 okf show ?thesis by (simp add: Arange_stop_dtype_def word_sless_alt)
qed

lemma Arange_result_dtype:
  "Arange start stop step dt device = (Inr out, device') \<Longrightarrow> Array.dtype out = dt"
  by (cases "val step = 0")
    (auto simp add: Arange_zero Arange_nonzero Arange_with_size_def Empty_def Allocate_def
      MakeArray_def Let_def split: if_splits)

lemma Arange_result_contiguous:
  "Arange start stop step dt device = (Inr out, device') \<Longrightarrow> IsContiguous out"
  by (cases "val step = 0")
    (auto simp add: Arange_zero Arange_nonzero Arange_with_size_def Empty_def Allocate_def
      MakeArray_def IsContiguous_def Let_def split: if_splits)

text \<open>
  Claim C3 as stated fails for the call with only \<open>stop\<close> given: with \<open>stop\<close> the boolean
  scalar true and the defaults \<open>start = 0\<close>, \<open>step = 1\<close>, the inference rule gives the
  default step's dtype, an integer one, while \<^verbatim>\<open>Arange(stop, device)\<close> returns a boolean
  array.
\<close>

theorem Arange_stop_dtype_counterexample:
  "fst (Arange_stop \<lparr>val = 1, dtype = kBool\<rparr> \<lparr>requested = [], memory = \<lambda>h. None\<rparr>) =
     Inr \<lparr>shape = [1], strides = [1], dtype = kBool, data = 0, nodes = []\<rparr>
   \<and> Arange_infer_dtype (Scalar_of_int 0) \<lparr>val = 1, dtype = kBool\<rparr> (Scalar_of_int 1) = kInt32
   \<and> Array.dtype (projr (fst (Arange_stop \<lparr>val = 1, dtype = kBool\<rparr>
         \<lparr>requested = [], memory = \<lambda>h. None\<rparr>))) \<noteq>
       Arange_infer_dtype (Scalar_of_int 0) \<lparr>val = 1, dtype = kBool\<rparr> (Scalar_of_int 1)"
proof -
  have v: "val (Scalar_of_int 1) \<noteq> 0" by (simp add: Scalar_of_int_def)
  have s: "Arange_size (Scalar_of_int 0) \<lparr>val = 1, dtype = kBool\<rparr> (Scalar_of_int 1) = 1"
    by (simp add: double_eval)
  have r: "fst (Arange_stop \<lparr>val = 1, dtype = kBool\<rparr> \<lparr>requested = [], memory = \<lambda>h. None\<rparr>) =
     Inr \<lparr>shape = [1], strides = [1], dtype = kBool, data = 0, nodes = []\<rparr>"
    using v by (simp add: Arange_stop_def Arange_nonzero Arange_with_size_fst s MakeArray_def
        Strides_of_def word_sless_alt)
  have d: "Arange_infer_dtype (Scalar_of_int 0) \<lparr>val = 1, dtype = kBool\<rparr> (Scalar_of_int 1) = kInt32"
    by (simp add: Arange_infer_dtype_def Scalar_of_int_def)
  from r d show ?thesis by simp
qed

text \<open>
  Claim C3, amended. \<^verbatim>\<open>Arange(start, stop, step, device)\<close> resolves the dtype to
  \<^verbatim>\<open>kFloat64\<close> whenever start or stop has float kind and to step's dtype otherwise;
  \<^verbatim>\<open>Arange(stop, device)\<close>, with \<open>start = 0\<close> and \<open>step = 1\<close>, resolves it to stop's
  dtype. In both cases the resolved dtype is the one passed on to the five-argument
  \<^verbatim>\<open>Arange\<close> and the dtype of the array a successful call returns.
\<close>

theorem Arange_resolved_dtype:
  "Arange_infer start stop step device =
     Arange start stop step
       (if GetKind (Scalar.dtype start) = kFloat \<or> GetKind (Scalar.dtype stop) = kFloat
        then kFloat64 else Scalar.dtype step) device
   \<and> (\<forall>out device'. Arange_infer start stop step device = (Inr out, device') \<longrightarrow>
        Array.dtype out =
          (if GetKind (Scalar.dtype start) = kFloat \<or> GetKind (Scalar.dtype stop) = kFloat
           then kFloat64 else Scalar.dtype step))
   \<and> Arange_stop stop device =
       Arange (Scalar_of_int 0) stop (Scalar_of_int 1) (Scalar.dtype stop) device
   \<and> (\<forall>out device'. Arange_stop stop device = (Inr out, device') \<longrightarrow>
        Array.dtype out = Scalar.dtype stop)"
proof -
  have eq: "Arange_infer start stop step device =
     Arange start stop step
       (if GetKind (Scalar.dtype start) = kFloat \<or> GetKind (Scalar.dtype stop) = kFloat
        then kFloat64 else Scalar.dtype step) device"
    by (simp add: Arange_infer_def Arange_infer_dtype_def)
  have a: "\<forall>out device'. Arange_infer start stop step device = (Inr out, device') \<longrightarrow>
        Array.dtype out =
          (if GetKind (Scalar.dtype start) = kFloat \<or> GetKind (Scalar.dtype stop) = kFloat
           then kFloat64 else Scalar.dtype step)"
    unfolding eq by (blast dest: Arange_result_dtype)
  have b: "\<forall>out device'. Arange_stop stop device = (Inr out, device') \<longrightarrow>
        Array.dtype out = Scalar.dtype stop"
    unfolding Arange_stop_def by (blast dest: Arange_result_dtype)
  from eq a b show ?thesis by (simp add: Arange_stop_def)
qed

theorem Arange_resolved_dtype_witness:
  "\<not> isl (fst (Arange_infer \<lparr>val = 1 / 2, dtype = kFloat32\<rparr> (Scalar_of_int 3)
      (Scalar_of_int 1) \<lparr>requested = [], memory = \<lambda>h. None\<rparr>))
   \<and> \<not> isl (fst (Arange_infer (Scalar_of_int 0) \<lparr>val = 3, dtype = kInt64\<rparr>
      \<lparr>val = 1, dtype = kInt8\<rparr> \<lparr>requested = [], memory = \<lambda>h. None\<rparr>))
   \<and> \<not> isl (fst (Arange_stop \<lparr>val = 3, dtype = kInt64\<rparr>
      \<lparr>requested = [], memory = \<lambda>h. None\<rparr>))
   \<and> Array.dtype (projr (fst (Arange_infer \<lparr>val = 1 / 2, dtype = kFloat32\<rparr> (Scalar_of_int 3)
      (Scalar_of_int 1) \<lparr>requested = [], memory = \<lambda>h. None\<rparr>))) = kFloat64
   \<and> Array.dtype (projr (fst (Arange_infer (Scalar_of_int 0) \<lparr>val = 3, dtype = kInt64\<rparr>
      \<lparr>val = 1, dtype = kInt8\<rparr> \<lparr>requested = [], memory = \<lambda>h. None\<rparr>))) = kInt8
   \<and> Array.dtype (projr (fst (Arange_stop \<lparr>val = 3, dtype = kInt64\<rparr>
      \<lparr>requested = [], memory = \<lambda>h. None\<rparr>))) = kInt64"
proof -
  let ?d = "\<lparr>requested = [], memory = \<lambda>h. None\<rparr>"
  have v: "val (Scalar_of_int 1) \<noteq> 0" by (simp add: Scalar_of_int_def)
  have r1: "\<not> isl (fst (Arange_infer \<lparr>val = 1 / 2, dtype = kFloat32\<rparr> (Scalar_of_int 3)
      (Scalar_of_int 1) ?d))"
    using v by (simp add: Arange_infer_def Arange_infer_dtype_def Arange_nonzero
        Arange_with_size_fst)
  have r2: "\<not> isl (fst (Arange_infer (Scalar_of_int 0) \<lparr>val = 3, dtype = kInt64\<rparr>
      \<lparr>val = 1, dtype = kInt8\<rparr> ?d))"
    by (simp add: Arange_infer_def Arange_infer_dtype_def Arange_nonzero Arange_with_size_fst
        Scalar_of_int_def)
  have r3: "\<not> isl (fst (Arange_stop \<lparr>val = 3, dtype = kInt64\<rparr> ?d))"
    using v by (simp add: Arange_stop_def Arange_nonzero Arange_with_size_fst)
  have k: "\<not> isl (fst r) \<Longrightarrow> r = (Inr (projr (fst r)), snd r)" for r :: "(error + Array) \<times> Device"
    by (cases r; cases "fst r") simp_all
  note t1 = Arange_resolved_dtype [of "\<lparr>val = 1 / 2, dtype = kFloat32\<rparr>" "Scalar_of_int 3"
      "Scalar_of_int 1" ?d]
  note t2 = Arange_resolved_dtype [of "Scalar_of_int 0" "\<lparr>val = 3, dtype = kInt64\<rparr>"
      "\<lparr>val = 1, dtype = kInt8\<rparr>" ?d]
  have "Array.dtype (projr (fst (Arange_infer \<lparr>val = 1 / 2, dtype = kFloat32\<rparr>
      (Scalar_of_int 3) (Scalar_of_int 1) ?d))) = kFloat64"
    using t1 [THEN conjunct2, THEN conjunct1, rule_format, OF k [OF r1]] by simp
  moreover have "Array.dtype (projr (fst (Arange_infer (Scalar_of_int 0)
      \<lparr>val = 3, dtype = kInt64\<rparr> \<lparr>val = 1, dtype = kInt8\<rparr> ?d))) = kInt8"
    using t2 [THEN conjunct2, THEN conjunct1, rule_format, OF k [OF r2]]
    by (simp add: Scalar_of_int_def)
  moreover have "Array.dtype (projr (fst (Arange_stop \<lparr>val = 3, dtype = kInt64\<rparr> ?d))) = kInt64"
    using t2 [THEN conjunct2, THEN conjunct2, THEN conjunct2, rule_format, OF k [OF r3]] by simp
  ultimately show ?thesis using r1 r2 r3 by simp
qed

section \<open>Contiguity of the constructed arrays\<close>

lemma Full_fst: "fst (Full sh v dt device) = fst (Empty sh dt device)"
  by (simp add: Full_def split_beta)

lemma Empty_contiguous: "IsContiguous (fst (Empty sh dt device))"
  by (simp add: Empty_fst MakeArray_def IsContiguous_def)

lemma Full_contiguous: "IsContiguous (fst (Full sh v dt device))"
  by (simp add: Full_fst Empty_contiguous)

text \<open>
  Claim C9. For every template array, \<^verbatim>\<open>EmptyLike\<close>, \<^verbatim>\<open>FullLike\<close>, \<^verbatim>\<open>ZerosLike\<close> and
  \<^verbatim>\<open>OnesLike\<close> return an array with the template's shape and dtype that is contiguous;
  they read nothing else from the template: changing its strides, block and history
  does not change the result. A template with column-major strides \<open>(4, 8)\<close> for shape
  \<open>(2, 3)\<close> is not contiguous, and the result has the row-major strides \<open>(12, 4)\<close>.
\<close>

theorem Like_family_reads_shape_and_dtype:
  "shape (fst (EmptyLike a device)) = shape a
   \<and> Array.dtype (fst (EmptyLike a device)) = Array.dtype a
   \<and> IsContiguous (fst (EmptyLike a device))
   \<and> shape (fst (FullLike a v device)) = shape a
   \<and> Array.dtype (fst (FullLike a v device)) = Array.dtype a
   \<and> IsContiguous (fst (FullLike a v device))
   \<and> shape (fst (ZerosLike a device)) = shape a
   \<and> Array.dtype (fst (ZerosLike a device)) = Array.dtype a
   \<and> IsContiguous (fst (ZerosLike a device))
   \<and> shape (fst (OnesLike a device)) = shape a
   \<and> Array.dtype (fst (OnesLike a device)) = Array.dtype a
   \<and> IsContiguous (fst (OnesLike a device))
   \<and> EmptyLike (a\<lparr>strides := st, data := d, nodes := ns\<rparr>) device = EmptyLike a device
   \<and> FullLike (a\<lparr>strides := st, data := d, nodes := ns\<rparr>) v device = FullLike a v device
   \<and> ZerosLike (a\<lparr>strides := st, data := d, nodes := ns\<rparr>) device = ZerosLike a device
   \<and> OnesLike (a\<lparr>strides := st, data := d, nodes := ns\<rparr>) device = OnesLike a device
   \<and> \<not> IsContiguous \<lparr>shape = [2, 3], strides = [4, 8], dtype = kInt32, data = 0, nodes = []\<rparr>
   \<and> strides (fst (EmptyLike
         \<lparr>shape = [2, 3], strides = [4, 8], dtype = kInt32, data = 0, nodes = []\<rparr>
         \<lparr>requested = [24], memory = \<lambda>h. None\<rparr>)) = [12, 4]"
proof -
  have e: "shape (fst (Empty sh dt device)) = sh \<and> Array.dtype (fst (Empty sh dt device)) = dt"
    for sh dt
    by (simp add: Empty_fst MakeArray_def)
  have 1: "shape (fst (EmptyLike a device)) = shape a
      \<and> Array.dtype (fst (EmptyLike a device)) = Array.dtype a
      \<and> IsContiguous (fst (EmptyLike a device))"
    by (simp add: EmptyLike_def e Empty_contiguous)
  have 2: "shape (fst (FullLike a v device)) = shape a
      \<and> Array.dtype (fst (FullLike a v device)) = Array.dtype a
      \<and> IsContiguous (fst (FullLike a v device))"
    by (simp add: FullLike_def Full_fst e Empty_contiguous)
  have 3: "shape (fst (ZerosLike a device)) = shape a
      \<and> Array.dtype (fst (ZerosLike a device)) = Array.dtype a
      \<and> IsContiguous (fst (ZerosLike a device))"
    by (simp add: ZerosLike_def Zeros_def Full_fst e Empty_contiguous)
  have 4: "shape (fst (OnesLike a device)) = shape a
      \<and> Array.dtype (fst (OnesLike a device)) = Array.dtype a
      \<and> IsContiguous (fst (OnesLike a device))"
    by (simp add: OnesLike_def Ones_def Full_fst e Empty_contiguous)
  have 5: "EmptyLike (a\<lparr>strides := st, data := d, nodes := ns\<rparr>) device = EmptyLike a device
      \<and> FullLike (a\<lparr>strides := st, data := d, nodes := ns\<rparr>) v device = FullLike a v device
      \<and> ZerosLike (a\<lparr>strides := st, data := d, nodes := ns\<rparr>) device = ZerosLike a device
      \<and> OnesLike (a\<lparr>strides := st, data := d, nodes := ns\<rparr>) device = OnesLike a device"
    by (simp add: EmptyLike_def FullLike_def ZerosLike_def OnesLike_def)
  have 6: "\<not> IsContiguous \<lparr>shape = [2, 3], strides = [4, 8], dtype = kInt32, data = 0, nodes = []\<rparr>
      \<and> strides (fst (EmptyLike
         \<lparr>shape = [2, 3], strides = [4, 8], dtype = kInt32, data = 0, nodes = []\<rparr>
         \<lparr>requested = [24], memory = \<lambda>h. None\<rparr>)) = [12, 4]"
    by (simp add: IsContiguous_def Strides_of_def EmptyLike_def Empty_fst MakeArray_def)
  from 1 2 3 4 5 6 show ?thesis by simp
qed

text \<open>
  Claim C10. Every array produced by \<^verbatim>\<open>Empty(shape, dtype, device)\<close>, \<^verbatim>\<open>Full\<close> (with and
  without dtype), \<^verbatim>\<open>Zeros\<close>, \<^verbatim>\<open>Ones\<close>, every \<^verbatim>\<open>Arange\<close> overload that returns an array, and
  the Like family is contiguous: its strides are the canonical row-major strides for
  its shape and dtype. The internal entry point with given strides can return an array
  that is not contiguous.
\<close>

theorem public_constructors_contiguous:
  "IsContiguous (fst (Empty sh dt device))
   \<and> IsContiguous (fst (Full sh v dt device))
   \<and> IsContiguous (fst (Full_infer sh v device))
   \<and> IsContiguous (fst (Zeros sh dt device))
   \<and> IsContiguous (fst (Ones sh dt device))
   \<and> (\<forall>out. fst (Arange start stop step dt device) = Inr out \<longrightarrow> IsContiguous out)
   \<and> (\<forall>out. fst (Arange_infer start stop step device) = Inr out \<longrightarrow> IsContiguous out)
   \<and> (\<forall>out. fst (Arange_start_stop_dtype start stop dt device) = Inr out \<longrightarrow> IsContiguous out)
   \<and> (\<forall>out. fst (Arange_stop_dtype stop dt device) = Inr out \<longrightarrow> IsContiguous out)
   \<and> (\<forall>out. fst (Arange_stop stop device) = Inr out \<longrightarrow> IsContiguous out)
   \<and> IsContiguous (fst (EmptyLike a device))
   \<and> IsContiguous (fst (FullLike a v device))
   \<and> IsContiguous (fst (ZerosLike a device))
   \<and> IsContiguous (fst (OnesLike a device))
   \<and> map_option (\<lambda>r. IsContiguous (fst r))
        (internal_Empty [2, 3] kInt32 [4, 8] \<lparr>requested = [], memory = \<lambda>h. None\<rparr>) = Some False"
proof -
  have A: "fst (Arange s1 s2 s3 d1 device) = Inr out \<Longrightarrow> IsContiguous out" for s1 s2 s3 d1 out
    using Arange_result_contiguous [of s1 s2 s3 d1 device out "snd (Arange s1 s2 s3 d1 device)"]
    by (metis prod.collapse)
  have 1: "IsContiguous (fst (Empty sh dt device)) \<and> IsContiguous (fst (Full sh v dt device))
      \<and> IsContiguous (fst (Full_infer sh v device)) \<and> IsContiguous (fst (Zeros sh dt device))
      \<and> IsContiguous (fst (Ones sh dt device))"
    by (simp add: Empty_contiguous Full_contiguous Full_infer_def Zeros_def Ones_def)
  have 2: "(\<forall>out. fst (Arange start stop step dt device) = Inr out \<longrightarrow> IsContiguous out)
      \<and> (\<forall>out. fst (Arange_infer start stop step device) = Inr out \<longrightarrow> IsContiguous out)
      \<and> (\<forall>out. fst (Arange_start_stop_dtype start stop dt device) = Inr out \<longrightarrow> IsContiguous out)
      \<and> (\<forall>out. fst (Arange_stop_dtype stop dt device) = Inr out \<longrightarrow> IsContiguous out)
      \<and> (\<forall>out. fst (Arange_stop stop device) = Inr out \<longrightarrow> IsContiguous out)"
    unfolding Arange_infer_def Arange_start_stop_dtype_def Arange_stop_dtype_def Arange_stop_def
    using A by blast
  have 3: "IsContiguous (fst (EmptyLike a device)) \<and> IsContiguous (fst (FullLike a v device))
      \<and> IsContiguous (fst (ZerosLike a device)) \<and> IsContiguous (fst (OnesLike a device))"
    by (simp add: EmptyLike_def FullLike_def ZerosLike_def OnesLike_def Zeros_def Ones_def
        Empty_contiguous Full_contiguous)
  have 4: "map_option (\<lambda>r. IsContiguous (fst r))
        (internal_Empty [2, 3] kInt32 [4, 8] \<lparr>requested = [], memory = \<lambda>h. None\<rparr>) = Some False"
    by (simp add: internal_Empty_def GetRequiredBytes_def GetTotalSize_def Allocate_def
        MakeArray_def IsContiguous_def Strides_of_def)
  from 1 2 3 4 show ?thesis by simp
qed

theorem public_constructors_contiguous_witness:
  "fst (Arange (Scalar_of_int 0) (Scalar_of_int 4) (Scalar_of_int 1) kInt32
          \<lparr>requested = [], memory = \<lambda>h. None\<rparr>) =
     Inr \<lparr>shape = [4], strides = [4], dtype = kInt32, data = 0, nodes = []\<rparr>
   \<and> IsContiguous \<lparr>shape = [4], strides = [4], dtype = kInt32, data = 0, nodes = []\<rparr>"
proof -
  have v: "val (Scalar_of_int 1) \<noteq> 0" by (simp add: Scalar_of_int_def)
  have s: "Arange_size (Scalar_of_int 0) (Scalar_of_int 4) (Scalar_of_int 1) = 4"
    by (simp add: double_eval)
  have r: "fst (Arange (Scalar_of_int 0) (Scalar_of_int 4) (Scalar_of_int 1) kInt32
          \<lparr>requested = [], memory = \<lambda>h. None\<rparr>) =
     Inr \<lparr>shape = [4], strides = [4], dtype = kInt32, data = 0, nodes = []\<rparr>"
    using v by (simp add: Arange_nonzero Arange_with_size_fst s MakeArray_def Strides_of_def
        word_sless_alt)
  note t = public_constructors_contiguous [of "[]" kInt32 "\<lparr>requested = [], memory = \<lambda>h. None\<rparr>"
      "Scalar_of_int 0" "Scalar_of_int 0" "Scalar_of_int 4" "Scalar_of_int 1"]
  from t r show ?thesis by simp
qed

section \<open>Copy\<close>

lemma fold_upd_other:
  "key \<notin> k ` set xs \<Longrightarrow> fold (\<lambda>x b. b(k x := g x)) xs b0 key = b0 key"
  by (induction xs arbitrary: b0) auto

lemma fold_upd_read:
  assumes "inj_on k (set xs)" and "x \<in> set xs"
  shows "fold (\<lambda>x b. b(k x := g x)) xs b0 (k x) = g x"
  using assms
proof (induction xs arbitrary: b0)
  case Nil
  then show ?case by simp
next
  case (Cons y ys)
  have inj: "inj_on k (set ys)" using Cons.prems(1) by (simp add: inj_on_def)
  show ?case
  proof (cases "x \<in> set ys")
    case True
    with Cons.IH inj show ?thesis by simp
  next
    case False
    with Cons.prems(2) have xy: "x = y" by simp
    have "k y \<notin> k ` set ys"
    proof
      assume "k y \<in> k ` set ys"
      then obtain z where z: "z \<in> set ys" "k y = k z" by auto
      with Cons.prems(1) have "y = z" by (auto simp add: inj_on_def)
      with z False xy show False by simp
    qed
    then have "fold (\<lambda>x b. b(k x := g x)) ys (b0(k y := g y)) (k y) = (b0(k y := g y)) (k y)"
      by (rule fold_upd_other)
    then show ?thesis by (simp only: xy fold_simps comp_apply fun_upd_same)
  qed
qed

lemma indices_Cons_iff:
  "idx \<in> set (indices (d # ds)) \<longleftrightarrow>
     (\<exists>i idx'. idx = i # idx' \<and> 0 \<le> i \<and> i < sint d \<and> idx' \<in> set (indices ds))"
proof
  assume "idx \<in> set (indices (d # ds))"
  then obtain n idx' where "n < nat (sint d)" "idx = int n # idx'" "idx' \<in> set (indices ds)"
    by auto
  then show "\<exists>i idx'. idx = i # idx' \<and> 0 \<le> i \<and> i < sint d \<and> idx' \<in> set (indices ds)"
    by (intro exI [of _ "int n"] exI [of _ idx']) auto
next
  assume "\<exists>i idx'. idx = i # idx' \<and> 0 \<le> i \<and> i < sint d \<and> idx' \<in> set (indices ds)"
  then obtain i idx' where h: "idx = i # idx'" "0 \<le> i" "i < sint d" "idx' \<in> set (indices ds)"
    by blast
  have n: "nat i \<in> set [0..<nat (sint d)]" using h(2,3) by simp
  have "idx \<in> set (map (\<lambda>idx. int (nat i) # idx) (indices ds))"
    using h(1,2,4) by simp
  with n have "idx \<in> (\<Union>n\<in>set [0..<nat (sint d)].
      set (map (\<lambda>idx. int n # idx) (indices ds)))"
    by (rule UN_I)
  then show "idx \<in> set (indices (d # ds))"
    by (simp only: indices.simps set_concat set_map image_image)
qed

lemma indices_zero_dim: "(0 :: 64 word) \<in> set ds \<Longrightarrow> indices ds = []"
  by (induction ds) auto

lemma offset_row_major_bounds:
  fixes ds :: "64 word list" and es :: "64 word"
  assumes "\<forall>d\<in>set ds. 1 \<le> sint d" and "1 \<le> sint es"
      and "sint es * prod_list (map sint ds) < 2 ^ 63"
      and "idx \<in> set (indices ds)"
  shows "0 \<le> offset (row_major ds es) idx
       \<and> offset (row_major ds es) idx < sint es * prod_list (map sint ds)"
  using assms
proof (induction ds arbitrary: idx)
  case Nil
  then show ?case by simp
next
  case (Cons d ds)
  let ?P = "prod_list (map sint ds)"
  let ?S = "sint es * ?P"
  from Cons.prems have d1: "1 \<le> sint d" and all: "\<forall>d\<in>set ds. 1 \<le> sint d" by simp_all
  from all have P1: "1 \<le> ?P" by (rule prod_sint_pos)
  have S1: "1 \<le> ?S" using Cons.prems(2) P1 by (metis mult_mono' mult_1 zero_le_one)
  have "?S * 1 \<le> ?S * sint d" using S1 d1 by (intro mult_left_mono) simp_all
  with Cons.prems(3) have small: "?S < 2 ^ 63" by (simp add: mult_ac)
  have stride: "sint (es * prod_list ds) = ?S"
    using all Cons.prems(2) small by (rule sint_scaled_prod)
  from Cons.prems(4) obtain i idx' where
    h: "idx = i # idx'" "0 \<le> i" "i < sint d" "idx' \<in> set (indices ds)"
    unfolding indices_Cons_iff by blast
  from Cons.IH [OF all Cons.prems(2) small h(4)]
  have r: "0 \<le> offset (row_major ds es) idx'" "offset (row_major ds es) idx' < ?S" by simp_all
  have lo: "0 \<le> i * ?S" using h(2) S1 by simp
  have "i + 1 \<le> sint d" using h(3) by simp
  then have "(i + 1) * ?S \<le> sint d * ?S" using S1 by (intro mult_right_mono) simp_all
  then have hi: "i * ?S + ?S \<le> sint es * (sint d * ?P)" by (simp add: algebra_simps)
  from lo hi r show ?case by (simp add: h(1) stride)
qed

lemma offset_row_major_inj:
  fixes ds :: "64 word list" and es :: "64 word"
  assumes "\<forall>d\<in>set ds. 1 \<le> sint d" and "1 \<le> sint es"
      and "sint es * prod_list (map sint ds) < 2 ^ 63"
  shows "inj_on (offset (row_major ds es)) (set (indices ds))"
  using assms
proof (induction ds)
  case Nil
  then show ?case by simp
next
  case (Cons d ds)
  let ?P = "prod_list (map sint ds)"
  let ?S = "sint es * ?P"
  from Cons.prems have d1: "1 \<le> sint d" and all: "\<forall>d\<in>set ds. 1 \<le> sint d" by simp_all
  from all have P1: "1 \<le> ?P" by (rule prod_sint_pos)
  have S1: "1 \<le> ?S" using Cons.prems(2) P1 by (metis mult_mono' mult_1 zero_le_one)
  have "?S * 1 \<le> ?S * sint d" using S1 d1 by (intro mult_left_mono) simp_all
  with Cons.prems(3) have small: "?S < 2 ^ 63" by (simp add: mult_ac)
  have stride: "sint (es * prod_list ds) = ?S"
    using all Cons.prems(2) small by (rule sint_scaled_prod)
  have IH: "inj_on (offset (row_major ds es)) (set (indices ds))"
    using Cons.IH all Cons.prems(2) small by simp
  show ?case
  proof (rule inj_onI)
    fix x y
    assume x: "x \<in> set (indices (d # ds))" and y: "y \<in> set (indices (d # ds))"
      and eq: "offset (row_major (d # ds) es) x = offset (row_major (d # ds) es) y"
    from x obtain i x' where hx: "x = i # x'" "x' \<in> set (indices ds)"
      unfolding indices_Cons_iff by blast
    from y obtain j y' where hy: "y = j # y'" "y' \<in> set (indices ds)"
      unfolding indices_Cons_iff by blast
    let ?rx = "offset (row_major ds es) x'" and ?ry = "offset (row_major ds es) y'"
    have bx: "0 \<le> ?rx" "?rx < ?S"
      using offset_row_major_bounds [OF all Cons.prems(2) small hx(2)] by simp_all
    have by': "0 \<le> ?ry" "?ry < ?S"
      using offset_row_major_bounds [OF all Cons.prems(2) small hy(2)] by simp_all
    from eq have e: "i * ?S + ?rx = j * ?S + ?ry" by (simp add: hx hy stride)
    have dv: "(c * ?S + r) div ?S = c" if "0 \<le> r" "r < ?S" for c r
    proof -
      have "?S \<noteq> 0" using S1 by linarith
      then have "(r + c * ?S) div ?S = c + r div ?S" by (rule div_mult_self1)
      moreover have "r div ?S = 0" using that by (rule div_pos_pos_trivial)
      ultimately show ?thesis by (simp add: add.commute)
    qed
    have "(i * ?S + ?rx) div ?S = i" using bx by (rule dv)
    moreover have "(j * ?S + ?ry) div ?S = j" using by' by (rule dv)
    ultimately have ij: "i = j" using e by simp
    with e have "?rx = ?ry" by simp
    with IH hx(2) hy(2) have "x' = y'" by (auto dest: inj_onD)
    with ij show "x = y" by (simp add: hx hy)
  qed
qed

lemma Strides_of_inj:
  assumes nonneg: "\<forall>d\<in>set sh. 0 \<le> sint d"
      and fits: "prod_list (map sint sh) * sint (GetElementSize dt) < 2 ^ 63"
  shows "inj_on (offset (Strides_of sh dt)) (set (indices sh))"
proof (cases "0 \<in> set sh")
  case True
  then show ?thesis by (simp add: indices_zero_dim)
next
  case False
  have pos: "\<forall>d\<in>set sh. 1 \<le> sint d"
  proof
    fix d assume d: "d \<in> set sh"
    with False have "d \<noteq> 0" by auto
    then have "sint d \<noteq> 0" by (simp add: signed_eq_0_iff)
    moreover from nonneg d have "0 \<le> sint d" by simp
    ultimately show "1 \<le> sint d" by linarith
  qed
  from fits have "sint (GetElementSize dt) * prod_list (map sint sh) < 2 ^ 63"
    by (simp add: mult_ac)
  with pos GetElementSize_pos show ?thesis
    unfolding Strides_of_def by (rule offset_row_major_inj)
qed

text \<open>
  Claim C4. For every array \<open>a\<close> whose block the device has handed out and whose shape
  has no negative dimension and a byte count that fits \<^verbatim>\<open>int64_t\<close>, \<^verbatim>\<open>Copy(a)\<close> returns
  (the assertion holds) an array on a new block with the shape and dtype of \<open>a\<close>; at
  every multi-index of the shape its element, read through its own strides, equals
  the element of \<open>a\<close> read through the strides of \<open>a\<close>, and \<open>a\<close> itself is unchanged;
  the result is contiguous, also when \<open>a\<close> is not, and it has no derivation history.
\<close>

theorem Copy_result:
  assumes "data a < length (requested device)"
      and "\<forall>d\<in>set (shape a). 0 \<le> sint d"
      and "prod_list (map sint (shape a)) * sint (GetElementSize (Array.dtype a)) < 2 ^ 63"
  shows "\<exists>out device'. Copy a device = Some (out, device')
     \<and> shape out = shape a
     \<and> Array.dtype out = Array.dtype a
     \<and> (\<forall>idx\<in>set (indices (shape a)).
          element_at device' out idx = element_at device a idx
          \<and> element_at device' a idx = element_at device a idx)
     \<and> IsContiguous out
     \<and> nodes out = []
     \<and> data out \<noteq> data a"
proof -
  let ?sh = "shape a" and ?dt = "Array.dtype a"
  let ?h = "length (requested device)"
  let ?out = "MakeArray ?sh (Strides_of ?sh ?dt) ?dt ?h"
  let ?d1 = "device\<lparr>requested := requested device @ [GetTotalSize ?sh * GetElementSize ?dt],
                       memory := (memory device)(?h := Some (\<lambda>off. None))\<rparr>"
  let ?F = "\<lambda>idx b. b(offset (Strides_of ?sh ?dt) idx := element_at ?d1 a idx)"
  let ?b = "fold ?F (indices ?sh) (block_of ?d1 ?h)"
  let ?d2 = "?d1\<lparr>memory := (memory ?d1)(?h := Some ?b)\<rparr>"
  have ne: "data a \<noteq> ?h" using assms(1) by simp
  have E: "Empty ?sh ?dt device = (?out, ?d1)"
    by (simp add: Empty_def Allocate_def Let_def)
  have A: "AsConstant a [] kCopy device = (?out\<lparr>nodes := []\<rparr>, ?d2)"
    by (simp add: AsConstant_def E MakeArray_def)
  have cont: "IsContiguous (?out\<lparr>nodes := []\<rparr>)"
    by (simp add: IsContiguous_def MakeArray_def)
  have C: "Copy a device = Some (?out\<lparr>nodes := []\<rparr>, ?d2)"
    by (simp add: Copy_def A cont)
  have a1: "element_at ?d1 a idx = element_at device a idx" for idx
    using ne by (simp add: element_at_def block_of_def)
  have a2: "element_at ?d2 a idx = element_at ?d1 a idx" for idx
    using ne by (simp add: element_at_def block_of_def)
  have inj: "inj_on (offset (Strides_of ?sh ?dt)) (set (indices ?sh))"
    using assms(2,3) by (rule Strides_of_inj)
  have o: "element_at ?d2 (?out\<lparr>nodes := []\<rparr>) idx = element_at device a idx"
    if "idx \<in> set (indices ?sh)" for idx
  proof -
    have "element_at ?d2 (?out\<lparr>nodes := []\<rparr>) idx = ?b (offset (Strides_of ?sh ?dt) idx)"
      by (simp add: element_at_def block_of_def MakeArray_def)
    also have "\<dots> = element_at ?d1 a idx"
      using inj that by (rule fold_upd_read)
    finally show ?thesis by (simp add: a1)
  qed
  have props: "shape (?out\<lparr>nodes := []\<rparr>) = ?sh \<and> Array.dtype (?out\<lparr>nodes := []\<rparr>) = ?dt
      \<and> nodes (?out\<lparr>nodes := []\<rparr>) = [] \<and> data (?out\<lparr>nodes := []\<rparr>) \<noteq> data a"
    using ne by (simp add: MakeArray_def)
  from C o a1 a2 cont props show ?thesis by (intro exI [of _ "?out\<lparr>nodes := []\<rparr>"] exI [of _ ?d2]) simp
qed

theorem Copy_result_witness:
  "data \<lparr>shape = [2, 2], strides = [4, 8], dtype = kInt32, data = 0, nodes = [''graph_1'']\<rparr>
     < length (requested \<lparr>requested = [16], memory = (\<lambda>h. None)
         (0 := Some ((\<lambda>off. None)(0 := Some 1, 4 := Some 2, 8 := Some 3, 12 := Some 4)))\<rparr>)
   \<and> 0 \<le> sint (2 :: int64_t)
   \<and> prod_list (map sint [2, 2 :: int64_t]) * sint (GetElementSize kInt32) < 2 ^ 63
   \<and> \<not> IsContiguous
        \<lparr>shape = [2, 2], strides = [4, 8], dtype = kInt32, data = 0, nodes = [''graph_1'']\<rparr>
   \<and> fst (the (Copy
        \<lparr>shape = [2, 2], strides = [4, 8], dtype = kInt32, data = 0, nodes = [''graph_1'']\<rparr>
        \<lparr>requested = [16], memory = (\<lambda>h. None)
          (0 := Some ((\<lambda>off. None)(0 := Some 1, 4 := Some 2, 8 := Some 3, 12 := Some 4)))\<rparr>)) =
       \<lparr>shape = [2, 2], strides = [8, 4], dtype = kInt32, data = 1, nodes = []\<rparr>
   \<and> element_at
        \<lparr>requested = [16], memory = (\<lambda>h. None)
          (0 := Some ((\<lambda>off. None)(0 := Some 1, 4 := Some 2, 8 := Some 3, 12 := Some 4)))\<rparr>
        \<lparr>shape = [2, 2], strides = [4, 8], dtype = kInt32, data = 0, nodes = [''graph_1'']\<rparr>
        [0, 1] = Some 3
   \<and> element_at
        (snd (the (Copy
          \<lparr>shape = [2, 2], strides = [4, 8], dtype = kInt32, data = 0, nodes = [''graph_1'']\<rparr>
          \<lparr>requested = [16], memory = (\<lambda>h. None)
            (0 := Some ((\<lambda>off. None)(0 := Some 1, 4 := Some 2, 8 := Some 3, 12 := Some 4)))\<rparr>)))
        \<lparr>shape = [2, 2], strides = [8, 4], dtype = kInt32, data = 1, nodes = []\<rparr>
        [0, 1] = Some 3
   \<and> block_of
        (snd (the (Copy
          \<lparr>shape = [2, 2], strides = [4, 8], dtype = kInt32, data = 0, nodes = [''graph_1'']\<rparr>
          \<lparr>requested = [16], memory = (\<lambda>h. None)
            (0 := Some ((\<lambda>off. None)(0 := Some 1, 4 := Some 2, 8 := Some 3, 12 := Some 4)))\<rparr>)))
        1 4 = Some 3"
proof -
  let ?a = "\<lparr>shape = [2, 2], strides = [4, 8], dtype = kInt32, data = 0,
      nodes = [''graph_1'']\<rparr>"
  let ?d = "\<lparr>requested = [16], memory = (\<lambda>h. None)
      (0 := Some ((\<lambda>off. None)(0 := Some 1, 4 := Some 2, 8 := Some 3, 12 := Some (4 :: real))))\<rparr>"
  let ?o = "\<lparr>shape = [2, 2], strides = [8, 4], dtype = kInt32, data = 1, nodes = []\<rparr>"
  have h1: "data ?a < length (requested ?d)" by simp
  have h2: "\<forall>d\<in>set (shape ?a). 0 \<le> sint d" by simp
  have h3: "prod_list (map sint (shape ?a)) * sint (GetElementSize (Array.dtype ?a)) < 2 ^ 63"
    by simp
  have idx: "(0 # [1 :: int]) \<in> set (indices (shape ?a))" by (simp add: numeral_2_eq_2)
  have nc: "\<not> IsContiguous ?a" by (simp add: IsContiguous_def Strides_of_def)
  have ea: "element_at ?d ?a [0, 1] = Some 3" by (simp add: element_at_def block_of_def)
  from Copy_result [OF h1 h2 h3] obtain out device' where
    c: "Copy ?a ?d = Some (out, device')" and sh: "shape out = shape ?a"
    and dt: "Array.dtype out = Array.dtype ?a"
    and el: "\<forall>idx\<in>set (indices (shape ?a)).
          element_at device' out idx = element_at ?d ?a idx
          \<and> element_at device' ?a idx = element_at ?d ?a idx"
    and co: "IsContiguous out" and nd: "nodes out = []" and da: "data out \<noteq> data ?a"
    by blast
  have dat: "data out = 1"
    using c by (auto simp add: Copy_def AsConstant_def Empty_def Allocate_def MakeArray_def
        Let_def split: if_splits)
  have "strides out = [8, 4]" using co sh dt by (simp add: IsContiguous_def Strides_of_def)
  with sh dt nd dat have out: "out = ?o" by (cases out) simp
  have e1: "element_at device' out [0, 1] = Some 3"
    using bspec [OF el idx] ea by simp
  then have "block_of device' 1 4 = Some 3" by (simp add: element_at_def out)
  with c out e1 h1 h3 nc ea show ?thesis by simp
qed

end
